theory Spec2Isabelle
  imports Main "HOL-Library.Word"
begin

unbundle bit_operations_syntax

section \<open>Snapshot framing of \<^verbatim>\<open>internal/rsm/snapshotio.go\<close>\<close>

text \<open>
  A shallow embedding of the snapshot writer, reader and chunk validator.
  Go's panics and returned errors are values of the type \<open>error\<close>; a method that
  mutates its receiver returns the outcome paired with the receiver after the call, so
  that the state left behind by a panic or by an error return can be stated too.
\<close>

subsection \<open>Basic types\<close>

type_synonym byte = "8 word"

text \<open>\<^verbatim>\<open>type SnapshotVersion uint64\<close>\<close>

type_synonym SnapshotVersion = "64 word"

definition v1SnapshotVersion :: SnapshotVersion where
  "v1SnapshotVersion = 1"

definition v2SnapshotVersion :: SnapshotVersion where
  "v2SnapshotVersion = 2"

definition currentSnapshotVersion :: SnapshotVersion where
  "currentSnapshotVersion = v1SnapshotVersion"

text \<open>
  \<^verbatim>\<open>pb.ChecksumType\<close> is a protobuf enumeration, an \<^verbatim>\<open>int32\<close> in Go, so a variable
  of that type can hold any 32-bit value.
\<close>

type_synonym ChecksumType = "32 word"

text \<open>
  Modelled from the spec: the declaration of the enumeration \<^verbatim>\<open>pb.ChecksumType\<close> lives
  in package \<^verbatim>\<open>raftpb\<close>, outside this file. The spec names two distinct identifiers,
  CRC32-IEEE (implemented, the default) and HIGHWAY (reserved); they are numbered in
  that order.
\<close>

definition CRC32IEEE :: ChecksumType where
  "CRC32IEEE = 0"

definition HIGHWAY :: ChecksumType where
  "HIGHWAY = 1"

definition defaultChecksumType :: ChecksumType where
  "defaultChecksumType = CRC32IEEE"

text \<open>
  Panics carry their message; the other constructors are the error values that the
  modelled calls return (\<^verbatim>\<open>io.EOF\<close>, \<^verbatim>\<open>io.ErrUnexpectedEOF\<close>, a failed open, and an
  error reported by a collaborator).
\<close>

datatype error =
    Panic string
  | EOF
  | ErrUnexpectedEOF
  | ErrNotExist
  | ErrOther string

fun is_panic :: "error + 'a \<Rightarrow> bool" where
  "is_panic (Inl (Panic m)) = True"
| "is_panic _ = False"

text \<open>
  \<^verbatim>\<open>pb.SnapshotHeader\<close>, with the fields this file reads and writes. A \<^verbatim>\<open>nil\<close> byte
  slice and an empty one are both \<open>[]\<close>: the code only compares them with
  \<^verbatim>\<open>bytes.Equal\<close>, which does not tell them apart.
\<close>

record SnapshotHeader =
  SessionSize :: "64 word"
  DataStoreSize :: "64 word"
  UnreliableTime :: "64 word"
  PayloadChecksum :: "byte list"
  ChecksumType :: ChecksumType
  Version :: "64 word"
  HeaderChecksum :: "byte list"

subsection \<open>CRC-32 (IEEE), as \<^verbatim>\<open>hash/crc32\<close> computes it\<close>

text \<open>
  \<^verbatim>\<open>simpleMakeTable\<close> and \<^verbatim>\<open>simpleUpdate\<close> of Go's \<^verbatim>\<open>hash/crc32\<close>: the table entry of
  a byte is eight shift-and-xor rounds with the reflected polynomial \<^verbatim>\<open>0xedb88320\<close>.
\<close>

definition crc32_round :: "32 word \<Rightarrow> 32 word" where
  "crc32_round crc =
     (if crc AND 1 = 1 then drop_bit 1 crc XOR 0xedb88320 else drop_bit 1 crc)"

definition crc32_tab :: "byte \<Rightarrow> 32 word" where
  "crc32_tab i = (crc32_round ^^ 8) (ucast i)"

definition crc32_byte :: "byte \<Rightarrow> 32 word \<Rightarrow> 32 word" where
  "crc32_byte b crc = crc32_tab ((ucast crc :: byte) XOR b) XOR drop_bit 8 crc"

definition crc32_update :: "32 word \<Rightarrow> byte list \<Rightarrow> 32 word" where
  "crc32_update crc p = NOT (fold crc32_byte p (NOT crc))"

text \<open>
  A \<^verbatim>\<open>hash.Hash\<close> value. \<^verbatim>\<open>crc32.NewIEEE()\<close> is the only implementation the file ever
  creates; its state is the running 32-bit checksum. \<^verbatim>\<open>Sum(nil)\<close> is the state in
  big-endian order.
\<close>

datatype Hash = CRC32Hash "32 word"

definition newCRC32Hash :: Hash where
  "newCRC32Hash = CRC32Hash 0"

fun hash_Write :: "Hash \<Rightarrow> byte list \<Rightarrow> Hash" where
  "hash_Write (CRC32Hash crc) p = CRC32Hash (crc32_update crc p)"

fun hash_Sum :: "Hash \<Rightarrow> byte list" where
  "hash_Sum (CRC32Hash crc) =
     [ucast (drop_bit 24 crc), ucast (drop_bit 16 crc), ucast (drop_bit 8 crc), ucast crc]"

text \<open>\<^verbatim>\<open>getChecksum\<close>: both unsupported branches panic.\<close>

definition getChecksum :: "ChecksumType \<Rightarrow> error + Hash" where
  "getChecksum t =
     (if t = CRC32IEEE then Inr newCRC32Hash
      else if t = HIGHWAY then Inl (Panic ''highway hash not supported yet'')
      else Inl (Panic ''not supported checksum type''))"

definition getChecksumType :: ChecksumType where
  "getChecksumType = defaultChecksumType"

definition getDefaultChecksum :: "error + Hash" where
  "getDefaultChecksum = getChecksum getChecksumType"

subsection \<open>Collaborators declared outside this file\<close>

text \<open>
  The file uses a constant of package \<^verbatim>\<open>settings\<close> and the generated serializer of
  \<^verbatim>\<open>pb.SnapshotHeader\<close>; neither is defined here, so both are parameters of the model.
  \<^item> \<open>SnapshotHeaderSize\<close>: the \<^verbatim>\<open>uint64\<close> constant \<^verbatim>\<open>settings.SnapshotHeaderSize\<close>. The
    Go expressions \<^verbatim>\<open>SnapshotHeaderSize-8\<close> and \<^verbatim>\<open>int64(SnapshotHeaderSize)\<close> are constant
    expressions, which compile only when \<open>8 \<le> SnapshotHeaderSize < 2^63\<close>.
  \<^item> \<open>Marshal\<close>, \<open>Unmarshal\<close>: the methods of \<^verbatim>\<open>pb.SnapshotHeader\<close>; \<open>Inl\<close> is the
    returned error, with its message.
  \<^item> \<open>V2Trailer\<close>: the sixteen bytes that follow a version-2 payload (see the
    version-2 writer below).
\<close>

record env =
  SnapshotHeaderSize :: nat
  Marshal :: "SnapshotHeader \<Rightarrow> string + byte list"
  Unmarshal :: "byte list \<Rightarrow> string + SnapshotHeader"
  V2Trailer :: "Hash \<Rightarrow> byte list"

subsection \<open>Files\<close>

text \<open>
  An open \<^verbatim>\<open>*os.File\<close> on a regular file: its bytes and the offset of the handle.
  Disk failures are not modelled: a write stores all its bytes, a seek to a
  non-negative offset and a size query succeed. A read returns end-of-file or too few
  bytes exactly when the file is too short.
\<close>

record File =
  content :: "byte list"
  offset :: nat

text \<open>\<^verbatim>\<open>f.Write(data)\<close>: overwrite at the offset, extending the file (with zeros over a gap).\<close>

definition file_Write :: "File \<Rightarrow> byte list \<Rightarrow> File" where
  "file_Write f data =
     f\<lparr>content := take (offset f) (content f) @ replicate (offset f - length (content f)) 0
                    @ data @ drop (offset f + length data) (content f),
       offset := offset f + length data\<rparr>"

text \<open>\<^verbatim>\<open>f.Seek(off, 0)\<close> returns the new offset.\<close>

definition file_Seek :: "File \<Rightarrow> nat \<Rightarrow> nat \<times> File" where
  "file_Seek f off = (off, f\<lparr>offset := off\<rparr>)"

text \<open>\<^verbatim>\<open>f.Read(p)\<close> with \<open>n = len(p)\<close>: the bytes read and the error.\<close>

definition file_Read :: "File \<Rightarrow> nat \<Rightarrow> (byte list \<times> error option) \<times> File" where
  "file_Read f n =
     (let bs = take n (drop (offset f) (content f)) in
      if n = 0 then (([], None), f)
      else if bs = [] then (([], Some EOF), f)
      else ((bs, None), f\<lparr>offset := offset f + length bs\<rparr>))"

text \<open>
  \<^verbatim>\<open>io.ReadFull(f, buf)\<close> with \<open>n = len(buf)\<close>: all \<open>n\<close> bytes, or \<^verbatim>\<open>io.EOF\<close> when none
  could be read, or \<^verbatim>\<open>io.ErrUnexpectedEOF\<close> after a short read.
\<close>

definition io_ReadFull :: "File \<Rightarrow> nat \<Rightarrow> (byte list \<times> error option) \<times> File" where
  "io_ReadFull f n =
     (let bs = take n (drop (offset f) (content f));
          f' = f\<lparr>offset := offset f + length bs\<rparr> in
      if length bs = n then ((bs, None), f')
      else if bs = [] then (([], Some EOF), f)
      else ((bs, Some ErrUnexpectedEOF), f'))"

text \<open>\<^verbatim>\<open>f.Stat().Size()\<close>\<close>

definition file_Size :: "File \<Rightarrow> int" where
  "file_Size f = int (length (content f))"

text \<open>
  The directory: the bytes stored under each path. A writer works on its handle, and
  \<^verbatim>\<open>Close\<close> (sync, directory sync, close) leaves the bytes under the path, where a
  reader opened afterwards finds them.
\<close>

type_synonym fs = "string \<rightharpoonup> byte list"

text \<open>\<^verbatim>\<open>binary.LittleEndian.PutUint64\<close> and \<^verbatim>\<open>binary.LittleEndian.Uint64\<close>\<close>

definition PutUint64 :: "64 word \<Rightarrow> byte list" where
  "PutUint64 v =
     [ucast v, ucast (drop_bit 8 v), ucast (drop_bit 16 v), ucast (drop_bit 24 v),
      ucast (drop_bit 32 v), ucast (drop_bit 40 v), ucast (drop_bit 48 v),
      ucast (drop_bit 56 v)]"

fun Uint64 :: "byte list \<Rightarrow> 64 word" where
  "Uint64 [b0, b1, b2, b3, b4, b5, b6, b7] =
     ucast b0 OR push_bit 8 (ucast b1) OR push_bit 16 (ucast b2) OR push_bit 24 (ucast b3)
       OR push_bit 32 (ucast b4) OR push_bit 40 (ucast b5) OR push_bit 48 (ucast b6)
       OR push_bit 56 (ucast b7)"
| "Uint64 _ = 0"

subsection \<open>Byte sources\<close>

text \<open>
  The \<^verbatim>\<open>io.Reader\<close> handed to a reader strategy: the file itself, or
  \<^verbatim>\<open>io.LimitReader(r, n)\<close>, whose \<^verbatim>\<open>Read\<close> is
  \<^verbatim>\<open>if l.N <= 0 { return 0, EOF }; if int64(len(p)) > l.N { p = p[0:l.N] };
  n, err = l.R.Read(p); l.N -= int64(n)\<close>.
\<close>

datatype Reader = FileReader | LimitedReader Reader int

fun reader_Read :: "Reader \<Rightarrow> File \<Rightarrow> nat \<Rightarrow> (byte list \<times> error option) \<times> Reader \<times> File" where
  "reader_Read FileReader f n = (case file_Read f n of (res, f') \<Rightarrow> (res, FileReader, f'))"
| "reader_Read (LimitedReader R N) f n =
     (if N \<le> 0 then (([], Some EOF), LimitedReader R N, f)
      else (case reader_Read R f (if int n > N then nat N else n) of
              ((bs, err), R', f') \<Rightarrow> ((bs, err), LimitedReader R' (N - int (length bs)), f')))"

subsection \<open>Version strategies\<close>

text \<open>
  Modelled from the spec: the writer strategies \<^verbatim>\<open>newV1Wrtier\<close> and \<^verbatim>\<open>newV2Writer\<close>
  (interface \<^verbatim>\<open>IVWriter\<close>) are defined in another file of the package. The spec gives
  version 1 as a flat byte stream with a single running checksum and no internal
  framing, and version 2 as a payload followed by a fixed-size trailer of 16 bytes;
  \<^verbatim>\<open>write\<close> forwards the bytes and updates the running payload checksum, \<^verbatim>\<open>flush\<close>
  forces the strategy's buffered state to the file, \<^verbatim>\<open>payloadSum\<close> is the finalized
  running checksum. The checksum is the default one (the header written by \<^verbatim>\<open>SaveHeader\<close>
  names \<^verbatim>\<open>getChecksumType()\<close>). The version-2 trailer is written by \<^verbatim>\<open>Flush\<close>, the only
  strategy call after the last \<^verbatim>\<open>Write\<close>; its bytes are \<open>V2Trailer\<close> of the environment.
\<close>

datatype IVWriter = V1Writer Hash | V2Writer Hash

text \<open>Modelled from the spec: \<^verbatim>\<open>write(bytes)\<close> of a writer strategy forwards the bytes to the
  file and updates the running payload checksum.\<close>

fun vw_Write :: "IVWriter \<Rightarrow> File \<Rightarrow> byte list \<Rightarrow> (nat \<times> error option) \<times> IVWriter \<times> File" where
  "vw_Write (V1Writer h) f data =
     ((length data, None), V1Writer (hash_Write h data), file_Write f data)"
| "vw_Write (V2Writer h) f data =
     ((length data, None), V2Writer (hash_Write h data), file_Write f data)"

text \<open>Modelled from the spec: \<^verbatim>\<open>flush()\<close> of a writer strategy; version 1 holds nothing back,
  version 2 appends its trailer.\<close>

fun vw_Flush :: "env \<Rightarrow> IVWriter \<Rightarrow> File \<Rightarrow> error option \<times> IVWriter \<times> File" where
  "vw_Flush E (V1Writer h) f = (None, V1Writer h, f)"
| "vw_Flush E (V2Writer h) f = (None, V2Writer h, file_Write f (V2Trailer E h))"

text \<open>Modelled from the spec: \<^verbatim>\<open>payloadSum()\<close>, the finalized running checksum.\<close>

fun vw_GetPayloadSum :: "IVWriter \<Rightarrow> byte list" where
  "vw_GetPayloadSum (V1Writer h) = hash_Sum h"
| "vw_GetPayloadSum (V2Writer h) = hash_Sum h"

text \<open>Modelled from the spec: \<^verbatim>\<open>formatVersion()\<close> of a writer strategy.\<close>

fun vw_GetVersion :: "IVWriter \<Rightarrow> SnapshotVersion" where
  "vw_GetVersion (V1Writer h) = v1SnapshotVersion"
| "vw_GetVersion (V2Writer h) = v2SnapshotVersion"

text \<open>
  Modelled from the spec: the reader strategies \<^verbatim>\<open>newV1Reader\<close> and \<^verbatim>\<open>newV2Reader\<close>
  (interface \<^verbatim>\<open>IVReader\<close>) are defined in another file of the package. The spec gives
  \<^verbatim>\<open>read(buffer)\<close> with the standard end-of-stream semantics over the byte source it
  was given, and \<^verbatim>\<open>sum()\<close> as the checksum accumulated over everything read so far.
\<close>

datatype IVReader = V1Reader Reader Hash | V2Reader Reader Hash

text \<open>Modelled from the spec: \<^verbatim>\<open>read(buffer)\<close> of a reader strategy reads from its byte source
  and adds what it read to the checksum.\<close>

fun vr_Read :: "IVReader \<Rightarrow> File \<Rightarrow> nat \<Rightarrow> (byte list \<times> error option) \<times> IVReader \<times> File" where
  "vr_Read (V1Reader R h) f n =
     (case reader_Read R f n of
        ((bs, err), R', f') \<Rightarrow> ((bs, err), V1Reader R' (hash_Write h bs), f'))"
| "vr_Read (V2Reader R h) f n =
     (case reader_Read R f n of
        ((bs, err), R', f') \<Rightarrow> ((bs, err), V2Reader R' (hash_Write h bs), f'))"

text \<open>Modelled from the spec: \<^verbatim>\<open>sum()\<close>, the checksum over everything read so far.\<close>

fun vr_Sum :: "IVReader \<Rightarrow> byte list" where
  "vr_Sum (V1Reader R h) = hash_Sum h"
| "vr_Sum (V2Reader R h) = hash_Sum h"

text \<open>
  \<^verbatim>\<open>getVersionWriter\<close> and \<^verbatim>\<open>getVersionReader\<close>. The \<^verbatim>\<open>io.Writer\<close> argument of the Go
  function is the file of the snapshot writer, which the model passes to each call of
  the strategy instead.
\<close>

definition getVersionWriter :: "SnapshotVersion \<Rightarrow> error + IVWriter" where
  "getVersionWriter v =
     (if v = v1SnapshotVersion then Inr (V1Writer newCRC32Hash)
      else if v = v2SnapshotVersion then Inr (V2Writer newCRC32Hash)
      else Inl (Panic ''unsupported v''))"

definition getVersionReader :: "Reader \<Rightarrow> SnapshotVersion \<Rightarrow> error + IVReader" where
  "getVersionReader rd v =
     (if v = v1SnapshotVersion then Inr (V1Reader rd newCRC32Hash)
      else if v = v2SnapshotVersion then Inr (V2Reader rd newCRC32Hash)
      else Inl (Panic ''unsupported v''))"

text \<open>
  The validator strategies (\<^verbatim>\<open>newV1Validator\<close>, \<^verbatim>\<open>newV2Validator\<close>, interface
  \<^verbatim>\<open>IVValidator\<close>) and \<^verbatim>\<open>getHeaderFromFirstChunk\<close> are defined in other files of the
  package. The chunk validator of this file only creates a strategy, forwards to it and
  keeps it, so they are parameters: \<open>'v\<close> is the state of a strategy validator, and a
  call of its \<^verbatim>\<open>AddChunk\<close> returns the verdict with the state after the call.
\<close>

record 'v venv =
  newV1Validator :: "SnapshotHeader \<Rightarrow> 'v"
  newV2Validator :: "Hash \<Rightarrow> 'v"
  vv_AddChunk :: "'v \<Rightarrow> byte list \<Rightarrow> 64 word \<Rightarrow> bool \<times> 'v"
  vv_Validate :: "'v \<Rightarrow> bool"
  getHeaderFromFirstChunk :: "byte list \<Rightarrow> SnapshotHeader \<times> bool"

definition getVersionValidator :: "'v venv \<Rightarrow> SnapshotHeader \<Rightarrow> error + 'v" where
  "getVersionValidator VE header =
     (let v = Version header in
      if v = v1SnapshotVersion then Inr (newV1Validator VE header)
      else if v = v2SnapshotVersion then
        (case getChecksum (ChecksumType header) of
           Inl e \<Rightarrow> Inl e
         | Inr h \<Rightarrow> Inr (newV2Validator VE h))
      else Inl (Panic ''unsupported v''))"

subsection \<open>SnapshotWriter\<close>

record SnapshotWriter =
  sw_vw :: IVWriter
  sw_file :: File
  sw_fp :: string

text \<open>
  \<^verbatim>\<open>NewSnapshotWriter\<close>: the file is created or truncated (\<^verbatim>\<open>os.OpenFile\<close> with
  \<^verbatim>\<open>O_RDWR|O_CREATE|O_TRUNC\<close>, which is taken to succeed), the zero-filled header
  region is written, then the strategy is bound. The result carries the file as the call
  leaves it, also when the version dispatch panics.
\<close>

definition NewSnapshotWriter :: "env \<Rightarrow> string \<Rightarrow> SnapshotVersion \<Rightarrow> (error + SnapshotWriter) \<times> File" where
  "NewSnapshotWriter E path version =
     (let f = \<lparr>content = [], offset = 0\<rparr>;
          dummy = replicate (SnapshotHeaderSize E) 0;
          f = file_Write f dummy in
      case getVersionWriter version of
        Inl e \<Rightarrow> (Inl e, f)
      | Inr w \<Rightarrow> (Inr \<lparr>sw_vw = w, sw_file = f, sw_fp = path\<rparr>, f))"

text \<open>
  \<^verbatim>\<open>Close\<close>: \<^verbatim>\<open>Sync\<close>, \<^verbatim>\<open>SyncDir\<close> and \<^verbatim>\<open>file.Close\<close>, each of which succeeds on
  the modelled disk; afterwards the bytes of the handle are the file under the path.
\<close>

definition SnapshotWriter_Close :: "fs \<Rightarrow> SnapshotWriter \<Rightarrow> error option \<times> fs" where
  "SnapshotWriter_Close dir sw = (None, dir(sw_fp sw \<mapsto> content (sw_file sw)))"

definition SnapshotWriter_Write :: "SnapshotWriter \<Rightarrow> byte list \<Rightarrow> (nat \<times> error option) \<times> SnapshotWriter" where
  "SnapshotWriter_Write sw data =
     (case vw_Write (sw_vw sw) (sw_file sw) data of
        (res, w, f) \<Rightarrow> (res, sw\<lparr>sw_vw := w, sw_file := f\<rparr>))"

definition SnapshotWriter_Flush :: "env \<Rightarrow> SnapshotWriter \<Rightarrow> error option \<times> SnapshotWriter" where
  "SnapshotWriter_Flush E sw =
     (case vw_Flush E (sw_vw sw) (sw_file sw) of
        (res, w, f) \<Rightarrow> (res, sw\<lparr>sw_vw := w, sw_file := f\<rparr>))"

text \<open>
  \<^verbatim>\<open>SaveHeader\<close>, in two parts. The first is the construction of the header record and
  of its final serialization (up to the second \<^verbatim>\<open>Marshal\<close>); \<open>now\<close> is the value of
  \<^verbatim>\<open>uint64(time.Now().UnixNano())\<close>.
\<close>

definition SaveHeader_record ::
    "env \<Rightarrow> SnapshotWriter \<Rightarrow> 64 word \<Rightarrow> 64 word \<Rightarrow> 64 word \<Rightarrow> error + SnapshotHeader \<times> byte list" where
  "SaveHeader_record E sw smsz sz now =
     (let sh = \<lparr>SessionSize = smsz, DataStoreSize = sz, UnreliableTime = now,
                PayloadChecksum = vw_GetPayloadSum (sw_vw sw),
                ChecksumType = getChecksumType,
                Version = vw_GetVersion (sw_vw sw),
                HeaderChecksum = []\<rparr> in
      case Marshal E sh of
        Inl err \<Rightarrow> Inl (Panic err)
      | Inr data \<Rightarrow>
          (case getDefaultChecksum of
             Inl e \<Rightarrow> Inl e
           | Inr headerHash \<Rightarrow>
               (let headerChecksum = hash_Sum (hash_Write headerHash data);
                    sh = sh\<lparr>HeaderChecksum := headerChecksum\<rparr> in
                case Marshal E sh of
                  Inl err \<Rightarrow> Inl (Panic err)
                | Inr data \<Rightarrow> Inr (sh, data))))"

text \<open>
  The second part: the size check, the seek to offset 0 and the two writes. The
  comparison \<^verbatim>\<open>uint64(len(data)) > SnapshotHeaderSize-8\<close> is written on integers.
\<close>

definition SaveHeader ::
    "env \<Rightarrow> SnapshotWriter \<Rightarrow> 64 word \<Rightarrow> 64 word \<Rightarrow> 64 word \<Rightarrow> (error + unit) \<times> SnapshotWriter" where
  "SaveHeader E sw smsz sz now =
     (case SaveHeader_record E sw smsz sz now of
        Inl e \<Rightarrow> (Inl e, sw)
      | Inr (sh, data) \<Rightarrow>
          if int (length data) > int (SnapshotHeaderSize E) - 8
          then (Inl (Panic ''snapshot header is too large''), sw)
          else (let f = snd (file_Seek (sw_file sw) 0);
                    lenbuf = PutUint64 (word_of_nat (length data));
                    f = file_Write f lenbuf;
                    f = file_Write f data in
                (Inr (), sw\<lparr>sw_file := f\<rparr>)))"

subsection \<open>SnapshotReader\<close>

record SnapshotReader =
  sr_r :: "IVReader option"
  sr_file :: File

text \<open>\<^verbatim>\<open>NewSnapshotReader\<close>: the open fails when there is no file under the path.\<close>

definition NewSnapshotReader :: "fs \<Rightarrow> string \<Rightarrow> error + SnapshotReader" where
  "NewSnapshotReader dir path =
     (case dir path of
        None \<Rightarrow> Inl ErrNotExist
      | Some bs \<Rightarrow> Inr \<lparr>sr_r = None, sr_file = \<lparr>content = bs, offset = 0\<rparr>\<rparr>)"

text \<open>
  \<^verbatim>\<open>GetHeader\<close>. Each early return and each panic of the Go function is a branch, in the
  order of the source; the reader is returned with the file as the call leaves it.
\<close>

definition GetHeader :: "env \<Rightarrow> SnapshotReader \<Rightarrow> (error + SnapshotHeader) \<times> SnapshotReader" where
  "GetHeader E sr =
     (case io_ReadFull (sr_file sr) 8 of
        ((lenbuf, err), f1) \<Rightarrow>
          (case err of
             Some e \<Rightarrow> (Inl e, sr\<lparr>sr_file := f1\<rparr>)
           | None \<Rightarrow>
               if length lenbuf \<noteq> 8 then (Inl ErrUnexpectedEOF, sr\<lparr>sr_file := f1\<rparr>)
               else
                 (let sz = Uint64 lenbuf in
                  if int (unat sz) > int (SnapshotHeaderSize E) - 8
                  then (Inl (Panic ''invalid snapshot header size''), sr\<lparr>sr_file := f1\<rparr>)
                  else
                    (case io_ReadFull f1 (unat sz) of
                       ((data, err), f2) \<Rightarrow>
                         (case err of
                            Some e \<Rightarrow> (Inl e, sr\<lparr>sr_file := f2\<rparr>)
                          | None \<Rightarrow>
                              if length data \<noteq> unat sz
                              then (Inl ErrUnexpectedEOF, sr\<lparr>sr_file := f2\<rparr>)
                              else
                                (case Unmarshal E data of
                                   Inl e \<Rightarrow> (Inl (Panic e), sr\<lparr>sr_file := f2\<rparr>)
                                 | Inr hdr \<Rightarrow>
                                     (case file_Seek f2 (SnapshotHeaderSize E) of
                                        (off, f3) \<Rightarrow>
                                          if off \<noteq> SnapshotHeaderSize E
                                          then (Inl ErrUnexpectedEOF, sr\<lparr>sr_file := f3\<rparr>)
                                          else
                                            (let reader =
                                               (if Version hdr = v2SnapshotVersion
                                                then LimitedReader FileReader
                                                       (file_Size f3 - int (SnapshotHeaderSize E) - 16)
                                                else FileReader) in
                                             case getVersionReader reader (Version hdr) of
                                               Inl e \<Rightarrow> (Inl e, sr\<lparr>sr_file := f3\<rparr>)
                                             | Inr vr \<Rightarrow>
                                                 (Inr hdr, sr\<lparr>sr_r := Some vr, sr_file := f3\<rparr>)))))))))"

text \<open>\<^verbatim>\<open>Read\<close>, with \<open>n = len(data)\<close>: the bytes stored into the buffer and the error.\<close>

definition SnapshotReader_Read ::
    "SnapshotReader \<Rightarrow> nat \<Rightarrow> (error + byte list \<times> error option) \<times> SnapshotReader" where
  "SnapshotReader_Read sr n =
     (case sr_r sr of
        None \<Rightarrow> (Inl (Panic ''Read called before GetHeader''), sr)
      | Some vr \<Rightarrow>
          (case vr_Read vr (sr_file sr) n of
             (res, vr', f') \<Rightarrow> (Inr res, sr\<lparr>sr_r := Some vr', sr_file := f'\<rparr>)))"

text \<open>
  \<^verbatim>\<open>ValidatePayload\<close>: \<^verbatim>\<open>sr.r.Sum()\<close> on a reader without a strategy is a call on a nil
  interface, which panics.
\<close>

definition ValidatePayload :: "SnapshotReader \<Rightarrow> SnapshotHeader \<Rightarrow> error + unit" where
  "ValidatePayload sr header =
     (case sr_r sr of
        None \<Rightarrow> Inl (Panic ''nil pointer dereference'')
      | Some vr \<Rightarrow>
          (let checksum = vr_Sum vr in
           if checksum \<noteq> PayloadChecksum header
           then Inl (Panic ''corrupted snapshot payload'')
           else Inr ()))"

definition ValidateHeader :: "env \<Rightarrow> SnapshotHeader \<Rightarrow> error + unit" where
  "ValidateHeader E header =
     (let checksum = HeaderChecksum header;
          header = header\<lparr>HeaderChecksum := []\<rparr> in
      case Marshal E header of
        Inl err \<Rightarrow> Inl (Panic err)
      | Inr data \<Rightarrow>
          (case getChecksum (ChecksumType header) of
             Inl e \<Rightarrow> Inl e
           | Inr headerHash \<Rightarrow>
               (let headerChecksum = hash_Sum (hash_Write headerHash data) in
                if headerChecksum \<noteq> checksum
                then Inl (Panic ''corrupted snapshot header'')
                else Inr ())))"

subsection \<open>SnapshotValidator\<close>

text \<open>The field \<^verbatim>\<open>v\<close> is \<^verbatim>\<open>nil\<close> (\<open>None\<close>) until a strategy is bound.\<close>

record 'v SnapshotValidator =
  sv_v :: "'v option"

definition NewSnapshotValidator :: "'v SnapshotValidator" where
  "NewSnapshotValidator = \<lparr>sv_v = None\<rparr>"

definition AddChunk ::
    "'v venv \<Rightarrow> 'v SnapshotValidator \<Rightarrow> byte list \<Rightarrow> 64 word \<Rightarrow> (error + bool) \<times> 'v SnapshotValidator" where
  "AddChunk VE sv data chunkID =
     (if chunkID = 0 then
        (case getHeaderFromFirstChunk VE data of
           (header, ok) \<Rightarrow>
             if \<not> ok then (Inr False, sv)
             else if sv_v sv \<noteq> None then (Inr False, sv)
             else
               (case getVersionValidator VE header of
                  Inl e \<Rightarrow> (Inl e, sv)
                | Inr s \<Rightarrow>
                    (case vv_AddChunk VE s data chunkID of
                       (b, s') \<Rightarrow> (Inr b, sv\<lparr>sv_v := Some s'\<rparr>))))
      else
        (case sv_v sv of
           None \<Rightarrow> (Inr False, sv)
         | Some s \<Rightarrow>
             (case vv_AddChunk VE s data chunkID of
                (b, s') \<Rightarrow> (Inr b, sv\<lparr>sv_v := Some s'\<rparr>))))"

definition Validate :: "'v venv \<Rightarrow> 'v SnapshotValidator \<Rightarrow> bool" where
  "Validate VE sv =
     (case sv_v sv of
        None \<Rightarrow> False
      | Some s \<Rightarrow> vv_Validate VE s)"

subsection \<open>Callers\<close>

text \<open>
  The call sequences the properties speak about. A writing caller issues the \<^verbatim>\<open>Write\<close>
  calls in order and stops at the first error.
\<close>

fun Write_all :: "SnapshotWriter \<Rightarrow> byte list list \<Rightarrow> error option \<times> SnapshotWriter" where
  "Write_all sw [] = (None, sw)"
| "Write_all sw (p # ps) =
     (case SnapshotWriter_Write sw p of
        ((n, err), sw') \<Rightarrow>
          (case err of
             Some e \<Rightarrow> (Some e, sw')
           | None \<Rightarrow> Write_all sw' ps))"

text \<open>Open with a version, write the pieces, \<^verbatim>\<open>Flush\<close>, \<^verbatim>\<open>SaveHeader\<close>, \<^verbatim>\<open>Close\<close>.\<close>

definition write_snapshot ::
    "env \<Rightarrow> fs \<Rightarrow> string \<Rightarrow> SnapshotVersion \<Rightarrow> byte list list \<Rightarrow> 64 word \<Rightarrow> 64 word \<Rightarrow> 64 word
       \<Rightarrow> error + fs" where
  "write_snapshot E dir path version ps smsz sz now =
     (case fst (NewSnapshotWriter E path version) of
        Inl e \<Rightarrow> Inl e
      | Inr sw \<Rightarrow>
          (case Write_all sw ps of
             (Some e, sw1) \<Rightarrow> Inl e
           | (None, sw1) \<Rightarrow>
               (case SnapshotWriter_Flush E sw1 of
                  (Some e, sw2) \<Rightarrow> Inl e
                | (None, sw2) \<Rightarrow>
                    (case SaveHeader E sw2 smsz sz now of
                       (Inl e, sw3) \<Rightarrow> Inl e
                     | (Inr u, sw3) \<Rightarrow>
                         (case SnapshotWriter_Close dir sw3 of
                            (Some e, dir') \<Rightarrow> Inl e
                          | (None, dir') \<Rightarrow> Inr dir')))))"

text \<open>
  A reading caller calls \<^verbatim>\<open>Read\<close> with a buffer of \<open>n\<close> bytes until it reports an
  error, and has the payload when that error is \<^verbatim>\<open>io.EOF\<close>. With an empty buffer
  the loop need not end, so the result is an option: \<open>None\<close> is a loop that never returns.
\<close>

partial_function (option) ReadAll ::
    "nat \<Rightarrow> SnapshotReader \<Rightarrow> byte list \<Rightarrow> ((error + byte list) \<times> SnapshotReader) option" where
  "ReadAll n sr acc =
     (case SnapshotReader_Read sr n of
        (Inl e, sr') \<Rightarrow> Some (Inl e, sr')
      | (Inr (bs, err), sr') \<Rightarrow>
          (case err of
             Some e \<Rightarrow> if e = EOF then Some (Inr (acc @ bs), sr') else Some (Inl e, sr')
           | None \<Rightarrow> ReadAll n sr' (acc @ bs)))"

text \<open>Open, \<^verbatim>\<open>GetHeader\<close>, read to the end of the stream.\<close>

definition read_snapshot ::
    "env \<Rightarrow> fs \<Rightarrow> string \<Rightarrow> nat \<Rightarrow> (error + SnapshotHeader \<times> byte list \<times> SnapshotReader) option" where
  "read_snapshot E dir path n =
     (case NewSnapshotReader dir path of
        Inl e \<Rightarrow> Some (Inl e)
      | Inr sr \<Rightarrow>
          (case GetHeader E sr of
             (Inl e, sr1) \<Rightarrow> Some (Inl e)
           | (Inr hdr, sr1) \<Rightarrow>
               (case ReadAll n sr1 [] of
                  None \<Rightarrow> None
                | Some (Inl e, sr2) \<Rightarrow> Some (Inl e)
                | Some (Inr bs, sr2) \<Rightarrow> Some (Inr (hdr, bs, sr2)))))"

text \<open>
  Any sequence of \<^verbatim>\<open>Read\<close> calls, with buffers of the given sizes: all the bytes they
  return, in order.
\<close>

fun Read_seq :: "SnapshotReader \<Rightarrow> nat list \<Rightarrow> byte list \<times> SnapshotReader" where
  "Read_seq sr [] = ([], sr)"
| "Read_seq sr (n # ns) =
     (case SnapshotReader_Read sr n of
        (Inl e, sr') \<Rightarrow> ([], sr')
      | (Inr (bs, err), sr') \<Rightarrow>
          (case Read_seq sr' ns of (rest, sr'') \<Rightarrow> (bs @ rest, sr'')))"

text \<open>The bytes a byte source still has to deliver.\<close>

fun remaining :: "Reader \<Rightarrow> File \<Rightarrow> byte list" where
  "remaining FileReader f = drop (offset f) (content f)"
| "remaining (LimitedReader R N) f = take (nat N) (remaining R f)"

subsection \<open>A serializer for the examples\<close>

text \<open>
  An instance of the environment, on which the properties below are exercised. The
  serializer writes the wire fields in the order of the spec: the integers in eight
  little-endian bytes each, a byte string after one byte holding its length.
\<close>

definition ref_Marshal :: "SnapshotHeader \<Rightarrow> string + byte list" where
  "ref_Marshal h =
     (if 255 < length (PayloadChecksum h) \<or> 255 < length (HeaderChecksum h)
      then Inl ''checksum too long''
      else Inr (PutUint64 (SessionSize h) @ PutUint64 (DataStoreSize h)
                @ PutUint64 (UnreliableTime h)
                @ [word_of_nat (length (PayloadChecksum h))] @ PayloadChecksum h
                @ PutUint64 (ucast (ChecksumType h)) @ PutUint64 (Version h)
                @ [word_of_nat (length (HeaderChecksum h))] @ HeaderChecksum h))"

definition get_u64 :: "byte list \<Rightarrow> (64 word \<times> byte list) option" where
  "get_u64 bs = (if length bs < 8 then None else Some (Uint64 (take 8 bs), drop 8 bs))"

definition get_bytes :: "byte list \<Rightarrow> (byte list \<times> byte list) option" where
  "get_bytes bs =
     (case bs of
        [] \<Rightarrow> None
      | l # rest \<Rightarrow>
          if length rest < unat l then None else Some (take (unat l) rest, drop (unat l) rest))"

definition ref_Unmarshal :: "byte list \<Rightarrow> string + SnapshotHeader" where
  "ref_Unmarshal bs =
     (case get_u64 bs of None \<Rightarrow> Inl ''unexpected EOF'' | Some (smsz, bs) \<Rightarrow>
      case get_u64 bs of None \<Rightarrow> Inl ''unexpected EOF'' | Some (sz, bs) \<Rightarrow>
      case get_u64 bs of None \<Rightarrow> Inl ''unexpected EOF'' | Some (tm, bs) \<Rightarrow>
      case get_bytes bs of None \<Rightarrow> Inl ''unexpected EOF'' | Some (pc, bs) \<Rightarrow>
      case get_u64 bs of None \<Rightarrow> Inl ''unexpected EOF'' | Some (ct, bs) \<Rightarrow>
      case get_u64 bs of None \<Rightarrow> Inl ''unexpected EOF'' | Some (ver, bs) \<Rightarrow>
      case get_bytes bs of None \<Rightarrow> Inl ''unexpected EOF'' | Some (hc, bs) \<Rightarrow>
      if bs \<noteq> [] then Inl ''trailing bytes''
      else Inr \<lparr>SessionSize = smsz, DataStoreSize = sz, UnreliableTime = tm,
                PayloadChecksum = pc, ChecksumType = ucast ct, Version = ver,
                HeaderChecksum = hc\<rparr>)"

definition example_env :: env where
  "example_env =
     \<lparr>SnapshotHeaderSize = 1024, Marshal = ref_Marshal, Unmarshal = ref_Unmarshal,
      V2Trailer = (\<lambda>h. hash_Sum h @ replicate 12 0)\<rparr>"

text \<open>The same with a header region of 32 bytes, too small for any header record.\<close>

definition tiny_env :: env where
  "tiny_env = example_env\<lparr>SnapshotHeaderSize := 32\<rparr>"

text \<open>
  An instance of the validator strategies: the state counts the chunks it was given, a
  chunk is accepted when it is not empty, and the header of a first chunk takes its
  version from the first byte.
\<close>

definition counting_venv :: "nat venv" where
  "counting_venv =
     \<lparr>newV1Validator = (\<lambda>header. 0),
      newV2Validator = (\<lambda>h. 0),
      vv_AddChunk = (\<lambda>s data chunkID. (data \<noteq> [], Suc s)),
      vv_Validate = (\<lambda>s. 0 < s),
      getHeaderFromFirstChunk = (\<lambda>data.
        (\<lparr>SessionSize = 0, DataStoreSize = 0, UnreliableTime = 0, PayloadChecksum = [],
          ChecksumType = CRC32IEEE, Version = (if data = [] then 0 else ucast (hd data)),
          HeaderChecksum = []\<rparr>, data \<noteq> []))\<rparr>"

text \<open>The parts of a strategy, and the bytes a snapshot reader can still deliver.\<close>

fun vw_hash :: "IVWriter \<Rightarrow> Hash" where
  "vw_hash (V1Writer h) = h"
| "vw_hash (V2Writer h) = h"

fun vr_source :: "IVReader \<Rightarrow> Reader" where
  "vr_source (V1Reader R h) = R"
| "vr_source (V2Reader R h) = R"

fun vr_hash :: "IVReader \<Rightarrow> Hash" where
  "vr_hash (V1Reader R h) = h"
| "vr_hash (V2Reader R h) = h"

definition sr_remaining :: "SnapshotReader \<Rightarrow> byte list" where
  "sr_remaining sr =
     (case sr_r sr of
        None \<Rightarrow> []
      | Some vr \<Rightarrow> remaining (vr_source vr) (sr_file sr))"

text \<open>A version-1 writer of the example environment, as \<^verbatim>\<open>NewSnapshotWriter\<close> returns it.\<close>

definition example_writer :: SnapshotWriter where
  "example_writer =
     \<lparr>sw_vw = V1Writer newCRC32Hash,
      sw_file = \<lparr>content = replicate 1024 0, offset = 1024\<rparr>,
      sw_fp = ''snap''\<rparr>"

text \<open>
  A header of the given version, its record (the length prefix and the serialized
  header), and a file with that record, the padding of the header region, the payload
  \<open>[1, 2, 3]\<close> and, for version 2, a trailer; a reader as \<^verbatim>\<open>NewSnapshotReader\<close> returns it
  on a file with the given bytes.
\<close>

definition example_header :: "SnapshotVersion \<Rightarrow> SnapshotHeader" where
  "example_header v =
     \<lparr>SessionSize = 128, DataStoreSize = 3, UnreliableTime = 0,
      PayloadChecksum = hash_Sum newCRC32Hash, ChecksumType = CRC32IEEE, Version = v,
      HeaderChecksum = [0, 0, 0, 0]\<rparr>"

definition example_record :: "SnapshotVersion \<Rightarrow> byte list" where
  "example_record v =
     (case ref_Marshal (example_header v) of
        Inl e \<Rightarrow> []
      | Inr d \<Rightarrow> PutUint64 (word_of_nat (length d)) @ d)"

definition example_file :: "SnapshotVersion \<Rightarrow> byte list" where
  "example_file v =
     example_record v @ replicate 966 0 @ [1, 2, 3]
       @ (if v = v2SnapshotVersion then replicate 16 0 else [])"

definition example_reader :: "byte list \<Rightarrow> SnapshotReader" where
  "example_reader bs = \<lparr>sr_r = None, sr_file = \<lparr>content = bs, offset = 0\<rparr>\<rparr>"

section \<open>Properties\<close>

subsection \<open>Checksums\<close>

lemma crc32_update_Nil: "crc32_update crc [] = crc"
  by (simp add: crc32_update_def)

lemma crc32_update_append: "crc32_update (crc32_update crc p) q = crc32_update crc (p @ q)"
  by (simp add: crc32_update_def)

lemma hash_Write_Nil: "hash_Write h [] = h"
  by (cases h) (simp add: crc32_update_Nil)

lemma hash_Write_append: "hash_Write (hash_Write h p) q = hash_Write h (p @ q)"
  by (cases h) (simp add: crc32_update_append)

lemma length_hash_Sum: "length (hash_Sum h) = 4"
  by (cases h) simp

lemma getDefaultChecksum_eq: "getDefaultChecksum = Inr newCRC32Hash"
  by (simp add: getDefaultChecksum_def getChecksum_def getChecksumType_def defaultChecksumType_def)

subsection \<open>Byte sources\<close>

lemma drop_offset_min:
  "drop (k + min (length xs - k) n) xs = drop (n + k) xs"
  by (cases "n \<le> length xs - k") (auto simp add: min_def add.commute)

lemma reader_Read_remaining:
  "reader_Read R f n = ((bs, err), R', f') \<Longrightarrow>
     bs = take n (remaining R f) \<and> remaining R' f' = drop n (remaining R f)
     \<and> content f' = content f
     \<and> (err = None \<or> err = Some EOF)
     \<and> (err = Some EOF \<longrightarrow> remaining R f = [])
     \<and> (0 < n \<and> remaining R f = [] \<longrightarrow> err = Some EOF)"
proof (induction R arbitrary: n bs err R' f')
  case FileReader
  then show ?case
    by (auto simp add: file_Read_def Let_def drop_take drop_offset_min split: if_splits)
next
  case (LimitedReader R N)
  show ?case
  proof (cases "N \<le> 0")
    case True
    with LimitedReader.prems show ?thesis by auto
  next
    case False
    define m where "m = (if int n > N then nat N else n)"
    obtain bs0 err0 R0 f0 where r: "reader_Read R f m = ((bs0, err0), R0, f0)"
      by (metis prod.exhaust)
    from LimitedReader.IH [OF r]
    have ih: "bs0 = take m (remaining R f)" "remaining R0 f0 = drop m (remaining R f)"
      "content f0 = content f" "err0 = None \<or> err0 = Some EOF"
      "err0 = Some EOF \<longrightarrow> remaining R f = []"
      "0 < m \<and> remaining R f = [] \<longrightarrow> err0 = Some EOF"
      by auto
    from LimitedReader.prems False r
    have eqs: "bs = bs0" "err = err0" "R' = LimitedReader R0 (N - int (length bs0))" "f' = f0"
      by (auto simp add: m_def)
    have m: "m = min n (nat N)" using False by (auto simp add: m_def)
    have 1: "bs = take n (remaining (LimitedReader R N) f)"
      by (simp add: eqs ih m min.commute)
    have 2: "remaining R' f' = drop n (remaining (LimitedReader R N) f)"
    proof -
      define K where "K = nat N"
      define xs where "xs = remaining R f"
      have N: "N = int K" using False by (simp add: K_def)
      have l: "remaining R' f' = take (K - min (length xs) m) (drop m xs)"
        by (simp add: eqs ih N xs_def nat_diff_distrib')
      have r: "drop n (remaining (LimitedReader R N) f) = take (K - n) (drop n xs)"
        by (simp add: drop_take xs_def K_def)
      show ?thesis
      proof (cases "n \<le> K")
        case True
        then have "m = n" by (simp add: m K_def)
        then show ?thesis
          unfolding l r by (cases "n \<le> length xs") (simp_all add: min_def)
      next
        case False
        then have "m = K" by (simp add: m K_def)
        then show ?thesis
          unfolding l r using False by (cases "K \<le> length xs") (simp_all add: min_def)
      qed
    qed
    have 3: "err = Some EOF \<longrightarrow> remaining (LimitedReader R N) f = []"
      using ih(5) eqs(2) by simp
    have 4: "0 < n \<and> remaining (LimitedReader R N) f = [] \<longrightarrow> err = Some EOF"
    proof
      assume a: "0 < n \<and> remaining (LimitedReader R N) f = []"
      then have "0 < m" using False by (simp add: m)
      moreover from a False have "remaining R f = []" by simp
      ultimately show "err = Some EOF" using ih(6) eqs(2) by simp
    qed
    have 5: "content f' = content f"
      using ih(3) eqs(4) by simp
    have 6: "err = None \<or> err = Some EOF"
      using ih(4) eqs(2) by simp
    from 1 2 3 4 5 6 show ?thesis by blast
  qed
qed

subsection \<open>Saving the header\<close>

lemma SaveHeader_record_Inr:
  assumes "SaveHeader_record E sw smsz sz now = Inr (sh, data)"
  shows "\<exists>d0. Marshal E (sh\<lparr>HeaderChecksum := []\<rparr>) = Inr d0
           \<and> HeaderChecksum sh = hash_Sum (hash_Write newCRC32Hash d0)"
    and "Marshal E sh = Inr data"
    and "ChecksumType sh = CRC32IEEE"
    and "PayloadChecksum sh = vw_GetPayloadSum (sw_vw sw)"
    and "Version sh = vw_GetVersion (sw_vw sw)"
    and "SessionSize sh = smsz" and "DataStoreSize sh = sz" and "UnreliableTime sh = now"
  using assms
  by (auto simp add: SaveHeader_record_def getDefaultChecksum_eq Let_def getChecksumType_def
      defaultChecksumType_def split: sum.splits)

lemma length_PutUint64: "length (PutUint64 v) = 8"
  by (simp add: PutUint64_def)

lemma file_Write_twice_at_0:
  assumes "offset f = 0"
  shows "content (file_Write (file_Write f a) b) = a @ b @ drop (length a + length b) (content f)"
    and "offset (file_Write (file_Write f a) b) = length a + length b"
  using assms by (simp_all add: file_Write_def add.commute)

lemma SaveHeader_Inr:
  assumes "SaveHeader E sw smsz sz now = (Inr u, sw')"
  shows "\<exists>sh data. SaveHeader_record E sw smsz sz now = Inr (sh, data)
           \<and> int (length data) \<le> int (SnapshotHeaderSize E) - 8
           \<and> content (sw_file sw') =
               PutUint64 (word_of_nat (length data)) @ data
                 @ drop (8 + length data) (content (sw_file sw))
           \<and> offset (sw_file sw') = 8 + length data
           \<and> sw_vw sw' = sw_vw sw \<and> sw_fp sw' = sw_fp sw"
proof (cases "SaveHeader_record E sw smsz sz now")
  case (Inl e)
  with assms show ?thesis by (simp add: SaveHeader_def)
next
  case (Inr p)
  obtain sh data where p: "p = (sh, data)" by (cases p)
  have fit: "int (length data) \<le> int (SnapshotHeaderSize E) - 8"
    using assms Inr p by (auto simp add: SaveHeader_def split: if_splits)
  define f0 where "f0 = snd (file_Seek (sw_file sw) 0)"
  have f0: "offset f0 = 0" "content f0 = content (sw_file sw)"
    by (simp_all add: f0_def file_Seek_def)
  have sw': "sw' = sw\<lparr>sw_file :=
      file_Write (file_Write f0 (PutUint64 (word_of_nat (length data)))) data\<rparr>"
    using assms Inr p fit by (simp add: SaveHeader_def Let_def f0_def)
  show ?thesis
    using Inr p fit file_Write_twice_at_0 [OF f0(1)]
    by (simp add: sw' length_PutUint64 f0(2))
qed

subsection \<open>Reading the header\<close>

lemma io_ReadFull_None:
  "io_ReadFull f n = ((bs, None), f') \<longleftrightarrow>
     offset f + n \<le> length (content f) \<and> bs = take n (drop (offset f) (content f))
     \<and> f' = f\<lparr>offset := offset f + n\<rparr>
   \<or> n = 0 \<and> bs = [] \<and> f' = f\<lparr>offset := offset f + 0\<rparr>"
  by (auto simp add: io_ReadFull_def Let_def min_def split: if_splits)

lemma io_ReadFull_enough:
  assumes "offset f + n \<le> length (content f)"
  shows "io_ReadFull f n =
           ((take n (drop (offset f) (content f)), None), f\<lparr>offset := offset f + n\<rparr>)"
proof -
  have "length (take n (drop (offset f) (content f))) = n"
    using assms by simp
  then show ?thesis
    unfolding io_ReadFull_def Let_def by simp
qed

lemma GetHeader_eq:
  assumes "offset (sr_file sr) = 0"
    and "8 + unat (Uint64 (take 8 (content (sr_file sr)))) \<le> length (content (sr_file sr))"
    and "int (unat (Uint64 (take 8 (content (sr_file sr))))) \<le> int (SnapshotHeaderSize E) - 8"
  shows "GetHeader E sr =
     (case Unmarshal E (take (unat (Uint64 (take 8 (content (sr_file sr)))))
                          (drop 8 (content (sr_file sr)))) of
        Inl e \<Rightarrow>
          (Inl (Panic e),
           sr\<lparr>sr_file := (sr_file sr)
                  \<lparr>offset := 8 + unat (Uint64 (take 8 (content (sr_file sr))))\<rparr>\<rparr>)
      | Inr hdr \<Rightarrow>
          (case getVersionReader
                  (if Version hdr = v2SnapshotVersion
                   then LimitedReader FileReader
                          (int (length (content (sr_file sr))) - int (SnapshotHeaderSize E) - 16)
                   else FileReader) (Version hdr) of
             Inl e \<Rightarrow> (Inl e, sr\<lparr>sr_file := (sr_file sr)\<lparr>offset := SnapshotHeaderSize E\<rparr>\<rparr>)
           | Inr vr \<Rightarrow> (Inr hdr, sr\<lparr>sr_r := Some vr,
                                sr_file := (sr_file sr)\<lparr>offset := SnapshotHeaderSize E\<rparr>\<rparr>)))"
proof -
  define c where "c = content (sr_file sr)"
  define L where "L = unat (Uint64 (take 8 c))"
  have len: "8 + L \<le> length c" using assms(2) by (simp add: c_def L_def)
  have r1: "io_ReadFull (sr_file sr) 8 = ((take 8 c, None), (sr_file sr)\<lparr>offset := 8\<rparr>)"
    using len assms(1) io_ReadFull_enough [of "sr_file sr" 8] by (simp add: c_def)
  have r2: "io_ReadFull ((sr_file sr)\<lparr>offset := 8\<rparr>) L
              = ((take L (drop 8 c), None), (sr_file sr)\<lparr>offset := 8 + L\<rparr>)"
    using len io_ReadFull_enough [of "(sr_file sr)\<lparr>offset := 8\<rparr>" L] by (simp add: c_def)
  have l8: "length (take 8 c) = 8" using len by simp
  have lL: "length (take L (drop 8 c)) = L" using len by simp
  have fit: "\<not> int L > int (SnapshotHeaderSize E) - 8"
    using assms(3) by (simp add: c_def L_def)
  show ?thesis
    unfolding GetHeader_def r1
    apply (simp only: prod.case option.case l8 Let_def L_def [symmetric] c_def [symmetric] fit
        if_False r2 lL sum.case file_Seek_def simp_thms)
    apply (simp add: file_Size_def c_def split: sum.splits)
    done
qed

lemma GetHeader_too_large:
  assumes "offset (sr_file sr) = 0"
    and "8 \<le> length (content (sr_file sr))"
    and "int (unat (Uint64 (take 8 (content (sr_file sr))))) > int (SnapshotHeaderSize E) - 8"
  shows "GetHeader E sr =
           (Inl (Panic ''invalid snapshot header size''), sr\<lparr>sr_file := (sr_file sr)\<lparr>offset := 8\<rparr>\<rparr>)"
proof -
  have r1: "io_ReadFull (sr_file sr) 8
              = ((take 8 (content (sr_file sr)), None), (sr_file sr)\<lparr>offset := 8\<rparr>)"
    using assms(1,2) io_ReadFull_enough [of "sr_file sr" 8] by simp
  show ?thesis
    unfolding GetHeader_def r1 using assms(2,3) by (simp add: Let_def)
qed

lemma GetHeader_Inr:
  assumes "GetHeader E sr = (Inr hdr, sr')" and "offset (sr_file sr) = 0"
  shows "8 + unat (Uint64 (take 8 (content (sr_file sr)))) \<le> length (content (sr_file sr))"
    and "int (unat (Uint64 (take 8 (content (sr_file sr))))) \<le> int (SnapshotHeaderSize E) - 8"
    and "Unmarshal E (take (unat (Uint64 (take 8 (content (sr_file sr)))))
                        (drop 8 (content (sr_file sr)))) = Inr hdr"
proof -
  define c where "c = content (sr_file sr)"
  define L where "L = unat (Uint64 (take 8 c))"
  obtain lenbuf f1 where r1: "io_ReadFull (sr_file sr) 8 = ((lenbuf, None), f1)"
    using assms(1) by (auto simp add: GetHeader_def split: prod.splits option.splits)
  from r1 assms(2) have l1: "8 \<le> length c" "lenbuf = take 8 c" "f1 = (sr_file sr)\<lparr>offset := 8\<rparr>"
    by (auto simp add: io_ReadFull_None c_def)
  have g: "GetHeader E sr =
     (if int L > int (SnapshotHeaderSize E) - 8
      then (Inl (Panic ''invalid snapshot header size''), sr\<lparr>sr_file := f1\<rparr>)
      else
        (case io_ReadFull f1 L of
           ((data, err), f2) \<Rightarrow>
             (case err of
                Some e \<Rightarrow> (Inl e, sr\<lparr>sr_file := f2\<rparr>)
              | None \<Rightarrow>
                  if length data \<noteq> L
                  then (Inl ErrUnexpectedEOF, sr\<lparr>sr_file := f2\<rparr>)
                  else
                    (case Unmarshal E data of
                       Inl e \<Rightarrow> (Inl (Panic e), sr\<lparr>sr_file := f2\<rparr>)
                     | Inr hdr \<Rightarrow>
                         (case file_Seek f2 (SnapshotHeaderSize E) of
                            (off, f3) \<Rightarrow>
                              if off \<noteq> SnapshotHeaderSize E
                              then (Inl ErrUnexpectedEOF, sr\<lparr>sr_file := f3\<rparr>)
                              else
                                (let reader =
                                   (if Version hdr = v2SnapshotVersion
                                    then LimitedReader FileReader
                                           (file_Size f3 - int (SnapshotHeaderSize E) - 16)
                                    else FileReader) in
                                 case getVersionReader reader (Version hdr) of
                                   Inl e \<Rightarrow> (Inl e, sr\<lparr>sr_file := f3\<rparr>)
                                 | Inr vr \<Rightarrow>
                                     (Inr hdr, sr\<lparr>sr_r := Some vr, sr_file := f3\<rparr>)))))))"
    using l1(1) unfolding GetHeader_def r1 l1(2) L_def by (simp add: Let_def)
  from g assms(1) have fit: "int L \<le> int (SnapshotHeaderSize E) - 8"
    by (auto split: if_splits)
  from g assms(1) fit obtain data f2 where r2: "io_ReadFull f1 L = ((data, None), f2)"
    by (auto split: prod.splits option.splits if_splits)
  from r2 l1 have l2: "8 + L \<le> length c \<and> data = take L (drop 8 c)"
    by (auto simp add: io_ReadFull_None c_def)
  from g assms(1) fit r2 have um: "Unmarshal E data = Inr hdr"
    by (auto split: prod.splits option.splits if_splits sum.splits simp add: Let_def)
  show "8 + unat (Uint64 (take 8 (content (sr_file sr)))) \<le> length (content (sr_file sr))"
    using l2 by (simp add: c_def L_def)
  show "int (unat (Uint64 (take 8 (content (sr_file sr))))) \<le> int (SnapshotHeaderSize E) - 8"
    using fit by (simp add: c_def L_def)
  show "Unmarshal E (take (unat (Uint64 (take 8 (content (sr_file sr)))))
                        (drop 8 (content (sr_file sr)))) = Inr hdr"
    using um l2 by (simp add: c_def L_def)
qed

subsection \<open>Reading\<close>

lemma Read_step:
  assumes "sr_r sr = Some vr"
  shows "\<exists>err sr' vr'.
           SnapshotReader_Read sr n = (Inr (take n (sr_remaining sr), err), sr')
           \<and> sr_remaining sr' = drop n (sr_remaining sr)
           \<and> sr_r sr' = Some vr'
           \<and> vr_hash vr' = hash_Write (vr_hash vr) (take n (sr_remaining sr))
           \<and> content (sr_file sr') = content (sr_file sr)
           \<and> (err = None \<or> err = Some EOF)
           \<and> (err = Some EOF \<longrightarrow> sr_remaining sr = [])
           \<and> (0 < n \<and> sr_remaining sr = [] \<longrightarrow> err = Some EOF)"
proof -
  obtain bs err R' f' where
    r: "reader_Read (vr_source vr) (sr_file sr) n = ((bs, err), R', f')"
    by (metis prod.exhaust)
  note p = reader_Read_remaining [OF r]
  have rem: "sr_remaining sr = remaining (vr_source vr) (sr_file sr)"
    by (simp add: sr_remaining_def assms)
  show ?thesis
  proof (cases vr)
    case (V1Reader R h)
    then have "SnapshotReader_Read sr n
                 = (Inr (bs, err), sr\<lparr>sr_r := Some (V1Reader R' (hash_Write h bs)), sr_file := f'\<rparr>)"
      using r by (simp add: SnapshotReader_Read_def assms)
    with p V1Reader show ?thesis
      by (simp add: sr_remaining_def assms)
  next
    case (V2Reader R h)
    then have "SnapshotReader_Read sr n
                 = (Inr (bs, err), sr\<lparr>sr_r := Some (V2Reader R' (hash_Write h bs)), sr_file := f'\<rparr>)"
      using r by (simp add: SnapshotReader_Read_def assms)
    with p V2Reader show ?thesis
      by (simp add: sr_remaining_def assms)
  qed
qed

lemma ReadAll_remaining:
  assumes "0 < n"
  shows "sr_r sr = Some vr \<Longrightarrow>
         \<exists>sr' vr'. ReadAll n sr acc = Some (Inr (acc @ sr_remaining sr), sr')
            \<and> sr_r sr' = Some vr'
            \<and> vr_hash vr' = hash_Write (vr_hash vr) (sr_remaining sr)"
proof (induction "length (sr_remaining sr)" arbitrary: sr vr acc rule: less_induct)
  case less
  from Read_step [OF less.prems, of n] obtain err sr1 vr1 where
    rd: "SnapshotReader_Read sr n = (Inr (take n (sr_remaining sr), err), sr1)"
    and rem1: "sr_remaining sr1 = drop n (sr_remaining sr)"
    and vr1: "sr_r sr1 = Some vr1"
    and h1: "vr_hash vr1 = hash_Write (vr_hash vr) (take n (sr_remaining sr))"
    and err: "err = None \<or> err = Some EOF"
    and eof: "err = Some EOF \<longrightarrow> sr_remaining sr = []"
    and emp: "0 < n \<and> sr_remaining sr = [] \<longrightarrow> err = Some EOF"
    by blast
  show ?case
  proof (cases err)
    case None
    with emp assms have ne: "sr_remaining sr \<noteq> []" by auto
    then have "length (sr_remaining sr1) < length (sr_remaining sr)"
      using assms by (simp add: rem1)
    from less.hyps [OF this vr1, of "acc @ take n (sr_remaining sr)"]
    obtain sr' vr' where
      "ReadAll n sr1 (acc @ take n (sr_remaining sr))
         = Some (Inr ((acc @ take n (sr_remaining sr)) @ sr_remaining sr1), sr')"
      "sr_r sr' = Some vr'"
      "vr_hash vr' = hash_Write (vr_hash vr1) (sr_remaining sr1)"
      by blast
    moreover have "ReadAll n sr acc = ReadAll n sr1 (acc @ take n (sr_remaining sr))"
      by (subst ReadAll.simps) (simp add: rd None)
    ultimately show ?thesis
      by (simp add: rem1 h1 hash_Write_append)
  next
    case (Some e)
    with err eof have e: "err = Some EOF" and emp': "sr_remaining sr = []" by auto
    have "ReadAll n sr acc = Some (Inr (acc @ take n (sr_remaining sr)), sr1)"
      by (subst ReadAll.simps) (simp add: rd e)
    then show ?thesis
      using vr1 h1 by (simp add: emp')
  qed
qed

lemma Read_seq_remaining:
  "sr_r sr = Some vr \<Longrightarrow> fst (Read_seq sr ns) = take (sum_list ns) (sr_remaining sr)"
proof (induction ns arbitrary: sr vr)
  case Nil
  then show ?case by simp
next
  case (Cons n ns)
  from Read_step [OF Cons.prems, of n] obtain err sr1 vr1 where
    rd: "SnapshotReader_Read sr n = (Inr (take n (sr_remaining sr), err), sr1)"
    and rem1: "sr_remaining sr1 = drop n (sr_remaining sr)"
    and vr1: "sr_r sr1 = Some vr1"
    by blast
  from Cons.IH [OF vr1] show ?case
    by (simp add: rd rem1 take_add case_prod_beta)
qed

subsection \<open>Writing\<close>

lemma file_Write_at_end:
  assumes "offset f = length (content f)"
  shows "content (file_Write f data) = content f @ data"
    and "offset (file_Write f data) = length (content f @ data)"
  using assms by (simp_all add: file_Write_def)

lemma SnapshotWriter_Write_at_end:
  assumes "offset (sw_file sw) = length (content (sw_file sw))"
  shows "\<exists>sw'. SnapshotWriter_Write sw data = ((length data, None), sw')
           \<and> content (sw_file sw') = content (sw_file sw) @ data
           \<and> offset (sw_file sw') = length (content (sw_file sw'))
           \<and> vw_hash (sw_vw sw') = hash_Write (vw_hash (sw_vw sw)) data
           \<and> vw_GetVersion (sw_vw sw') = vw_GetVersion (sw_vw sw)
           \<and> sw_fp sw' = sw_fp sw"
  using file_Write_at_end [OF assms, of data]
  by (cases "sw_vw sw") (simp_all add: SnapshotWriter_Write_def)

lemma Write_all_at_end:
  "offset (sw_file sw) = length (content (sw_file sw)) \<Longrightarrow>
   \<exists>sw'. Write_all sw ps = (None, sw')
      \<and> content (sw_file sw') = content (sw_file sw) @ concat ps
      \<and> offset (sw_file sw') = length (content (sw_file sw'))
      \<and> vw_hash (sw_vw sw') = hash_Write (vw_hash (sw_vw sw)) (concat ps)
      \<and> vw_GetVersion (sw_vw sw') = vw_GetVersion (sw_vw sw)
      \<and> sw_fp sw' = sw_fp sw"
proof (induction ps arbitrary: sw)
  case Nil
  then show ?case by (simp add: hash_Write_Nil)
next
  case (Cons p ps)
  from SnapshotWriter_Write_at_end [OF Cons.prems, of p] obtain sw1 where
    w: "SnapshotWriter_Write sw p = ((length p, None), sw1)"
    and c1: "content (sw_file sw1) = content (sw_file sw) @ p"
    and o1: "offset (sw_file sw1) = length (content (sw_file sw1))"
    and h1: "vw_hash (sw_vw sw1) = hash_Write (vw_hash (sw_vw sw)) p"
    and v1: "vw_GetVersion (sw_vw sw1) = vw_GetVersion (sw_vw sw)"
    and p1: "sw_fp sw1 = sw_fp sw"
    by blast
  from Cons.IH [OF o1] obtain sw' where
    "Write_all sw1 ps = (None, sw')"
    "content (sw_file sw') = content (sw_file sw1) @ concat ps"
    "offset (sw_file sw') = length (content (sw_file sw'))"
    "vw_hash (sw_vw sw') = hash_Write (vw_hash (sw_vw sw1)) (concat ps)"
    "vw_GetVersion (sw_vw sw') = vw_GetVersion (sw_vw sw1)"
    "sw_fp sw' = sw_fp sw1"
    by blast
  then show ?case
    by (simp add: w c1 h1 v1 p1 hash_Write_append)
qed

subsection \<open>Little-endian length prefix\<close>

lemma low_byte_split:
  "ucast (ucast w :: byte) OR push_bit 8 (drop_bit 8 w) = (w :: 64 word)"
proof (rule bit_word_eqI)
  fix n assume "n < LENGTH(64)"
  show "bit (ucast (ucast w :: byte) OR push_bit 8 (drop_bit 8 w)) n = bit w n"
    by (cases "n < 8") (auto simp add: bit_simps dest: bit_imp_le_length)
qed

lemma top_byte_ucast:
  "ucast (ucast (drop_bit 56 w) :: byte) = (drop_bit 56 w :: 64 word)"
proof (rule bit_word_eqI)
  fix n assume "n < LENGTH(64)"
  show "bit (ucast (ucast (drop_bit 56 w) :: byte) :: 64 word) n = bit (drop_bit 56 w) n"
    by (auto simp add: bit_simps dest: bit_imp_le_length)
qed

lemma Uint64_PutUint64: "Uint64 (PutUint64 v) = v"
proof -
  define v1 where "v1 = drop_bit 8 v"
  define v2 where "v2 = drop_bit 8 v1"
  define v3 where "v3 = drop_bit 8 v2"
  define v4 where "v4 = drop_bit 8 v3"
  define v5 where "v5 = drop_bit 8 v4"
  define v6 where "v6 = drop_bit 8 v5"
  define v7 where "v7 = drop_bit 8 v6"
  have d: "drop_bit 8 v = v1" "drop_bit 16 v = v2" "drop_bit 24 v = v3" "drop_bit 32 v = v4"
    "drop_bit 40 v = v5" "drop_bit 48 v = v6" "drop_bit 56 v = v7"
    by (simp_all add: v1_def v2_def v3_def v4_def v5_def v6_def v7_def drop_bit_drop_bit)
  have t: "ucast (ucast v7 :: byte) = v7"
    using top_byte_ucast [of v] by (simp add: d)
  have "Uint64 (PutUint64 v) =
     ucast (ucast v :: byte) OR push_bit 8 (ucast (ucast v1 :: byte) OR
       push_bit 8 (ucast (ucast v2 :: byte) OR
       push_bit 8 (ucast (ucast v3 :: byte) OR
       push_bit 8 (ucast (ucast v4 :: byte) OR
       push_bit 8 (ucast (ucast v5 :: byte) OR
       push_bit 8 (ucast (ucast v6 :: byte) OR
       push_bit 8 (ucast (ucast v7 :: byte))))))))"
    unfolding PutUint64_def Uint64.simps d
    by (simp only: push_bit_or push_bit_push_bit or.assoc) simp
  also have "\<dots> = v"
    unfolding t
    unfolding v7_def low_byte_split v6_def v5_def v4_def v3_def v2_def v1_def
    by (rule refl)
  finally show ?thesis .
qed

lemma unat_Uint64_PutUint64:
  "n < 2 ^ 64 \<Longrightarrow> unat (Uint64 (PutUint64 (word_of_nat n))) = n"
  by (simp add: Uint64_PutUint64 unat_of_nat)

subsection \<open>The example serializer\<close>

lemma get_u64_PutUint64: "get_u64 (PutUint64 v @ rest) = Some (v, rest)"
  by (simp add: get_u64_def length_PutUint64 Uint64_PutUint64)

lemma get_bytes_prefixed:
  "length bs \<le> 255 \<Longrightarrow> get_bytes (word_of_nat (length bs) # bs @ rest) = Some (bs, rest)"
  by (simp add: get_bytes_def unat_of_nat)

lemma ref_Unmarshal_Marshal:
  assumes "ref_Marshal h = Inr d"
  shows "ref_Unmarshal d = Inr h"
proof -
  have l: "length (PayloadChecksum h) \<le> 255" "length (HeaderChecksum h) \<le> 255"
    using assms by (auto simp add: ref_Marshal_def split: if_splits)
  have d: "d = PutUint64 (SessionSize h) @ PutUint64 (DataStoreSize h)
                @ PutUint64 (UnreliableTime h)
                @ word_of_nat (length (PayloadChecksum h)) # PayloadChecksum h
                @ PutUint64 (ucast (ChecksumType h)) @ PutUint64 (Version h)
                @ word_of_nat (length (HeaderChecksum h)) # HeaderChecksum h @ []"
    using assms by (auto simp add: ref_Marshal_def split: if_splits)
  have u: "ucast (ucast (ChecksumType h) :: 64 word) = ChecksumType h"
    by (rule ucast_up_ucast_id) (simp add: is_up)
  show ?thesis
    unfolding d ref_Unmarshal_def
    by (simp only: get_u64_PutUint64 get_bytes_prefixed [OF l(1)] get_bytes_prefixed [OF l(2)]
        option.case prod.case u) simp
qed

subsection \<open>The header checksum\<close>

lemma example_writer_eq:
  "fst (NewSnapshotWriter example_env ''snap'' v1SnapshotVersion) = Inr example_writer"
  by (simp add: NewSnapshotWriter_def example_env_def getVersionWriter_def example_writer_def
      file_Write_def Let_def)

lemma ValidateHeader_SaveHeader_record:
  assumes "SaveHeader_record E sw smsz sz now = Inr (sh, data)"
  shows "ValidateHeader E sh = Inr ()"
    and "c \<noteq> HeaderChecksum sh \<Longrightarrow>
           ValidateHeader E (sh\<lparr>HeaderChecksum := c\<rparr>) = Inl (Panic ''corrupted snapshot header'')"
proof -
  from SaveHeader_record_Inr(1) [OF assms] obtain d0 where
    d0: "Marshal E (sh\<lparr>HeaderChecksum := []\<rparr>) = Inr d0"
    and hc: "HeaderChecksum sh = hash_Sum (hash_Write newCRC32Hash d0)"
    by blast
  have ct: "getChecksum (ChecksumType sh) = Inr newCRC32Hash"
    using SaveHeader_record_Inr(3) [OF assms] by (simp add: getChecksum_def)
  show "ValidateHeader E sh = Inr ()"
    by (simp add: ValidateHeader_def d0 ct hc)
  show "ValidateHeader E (sh\<lparr>HeaderChecksum := c\<rparr>) = Inl (Panic ''corrupted snapshot header'')"
    if "c \<noteq> HeaderChecksum sh"
    using that by (auto simp add: ValidateHeader_def d0 ct hc)
qed

lemma example_SaveHeader_record:
  "\<exists>sh data. SaveHeader_record (example_env\<lparr>SnapshotHeaderSize := H\<rparr>) sw smsz sz now = Inr (sh, data)
     \<and> length data = 50"
  by (cases "sw_vw sw")
    (simp_all add: SaveHeader_record_def example_env_def ref_Marshal_def length_hash_Sum
      getDefaultChecksum_eq Let_def length_PutUint64)

subsection \<open>A whole snapshot\<close>

lemma vr_Sum_hash: "vr_Sum vr = hash_Sum (vr_hash vr)"
  by (cases vr) simp_all

lemma vw_GetPayloadSum_hash: "vw_GetPayloadSum w = hash_Sum (vw_hash w)"
  by (cases w) simp_all

lemma NewSnapshotWriter_Inr:
  assumes "fst (NewSnapshotWriter E path version) = Inr sw"
  shows "content (sw_file sw) = replicate (SnapshotHeaderSize E) 0"
    and "offset (sw_file sw) = SnapshotHeaderSize E"
    and "vw_hash (sw_vw sw) = newCRC32Hash"
    and "vw_GetVersion (sw_vw sw) = version"
    and "sw_fp sw = path"
    and "version = v1SnapshotVersion \<or> version = v2SnapshotVersion"
  using assms
  by (auto simp add: NewSnapshotWriter_def getVersionWriter_def file_Write_def Let_def
      split: if_splits)

lemma SnapshotWriter_Flush_at_end:
  assumes "offset (sw_file sw) = length (content (sw_file sw))"
  shows "\<exists>sw' tr. SnapshotWriter_Flush E sw = (None, sw')
           \<and> content (sw_file sw') = content (sw_file sw) @ tr
           \<and> (vw_GetVersion (sw_vw sw) = v1SnapshotVersion \<longrightarrow> tr = [])
           \<and> (vw_GetVersion (sw_vw sw) = v2SnapshotVersion \<longrightarrow> tr = V2Trailer E (vw_hash (sw_vw sw)))
           \<and> vw_hash (sw_vw sw') = vw_hash (sw_vw sw)
           \<and> vw_GetVersion (sw_vw sw') = vw_GetVersion (sw_vw sw)
           \<and> sw_fp sw' = sw_fp sw"
  using file_Write_at_end [OF assms]
  by (cases "sw_vw sw")
    (simp_all add: SnapshotWriter_Flush_def v1SnapshotVersion_def v2SnapshotVersion_def)

text \<open>The file that a successful \<open>write_snapshot\<close> leaves under the path.\<close>

lemma write_snapshot_Inr:
  assumes "write_snapshot E dir path version ps smsz sz now = Inr dir'"
  shows "\<exists>sh data tr.
           dir' = dir(path \<mapsto> PutUint64 (word_of_nat (length data)) @ data
                          @ replicate (SnapshotHeaderSize E - (8 + length data)) 0
                          @ concat ps @ tr)
           \<and> int (length data) \<le> int (SnapshotHeaderSize E) - 8
           \<and> Marshal E sh = Inr data
           \<and> PayloadChecksum sh = hash_Sum (hash_Write newCRC32Hash (concat ps))
           \<and> Version sh = version
           \<and> SessionSize sh = smsz \<and> DataStoreSize sh = sz \<and> UnreliableTime sh = now
           \<and> ValidateHeader E sh = Inr ()
           \<and> (version = v1SnapshotVersion \<and> tr = []
               \<or> version = v2SnapshotVersion
                  \<and> tr = V2Trailer E (hash_Write newCRC32Hash (concat ps)))"
proof -
  from assms obtain sw0 where n: "fst (NewSnapshotWriter E path version) = Inr sw0"
    by (auto simp add: write_snapshot_def split: sum.splits)
  note n0 = NewSnapshotWriter_Inr [OF n]
  have e0: "offset (sw_file sw0) = length (content (sw_file sw0))"
    by (simp add: n0)
  from Write_all_at_end [OF e0, of ps] obtain sw1 where
    w: "Write_all sw0 ps = (None, sw1)"
    and c1: "content (sw_file sw1) = content (sw_file sw0) @ concat ps"
    and e1: "offset (sw_file sw1) = length (content (sw_file sw1))"
    and h1: "vw_hash (sw_vw sw1) = hash_Write (vw_hash (sw_vw sw0)) (concat ps)"
    and v1: "vw_GetVersion (sw_vw sw1) = vw_GetVersion (sw_vw sw0)"
    and p1: "sw_fp sw1 = sw_fp sw0"
    by blast
  from SnapshotWriter_Flush_at_end [OF e1, of E] obtain sw2 tr where
    f: "SnapshotWriter_Flush E sw1 = (None, sw2)"
    and c2: "content (sw_file sw2) = content (sw_file sw1) @ tr"
    and t1: "vw_GetVersion (sw_vw sw1) = v1SnapshotVersion \<longrightarrow> tr = []"
    and t2: "vw_GetVersion (sw_vw sw1) = v2SnapshotVersion \<longrightarrow> tr = V2Trailer E (vw_hash (sw_vw sw1))"
    and h2: "vw_hash (sw_vw sw2) = vw_hash (sw_vw sw1)"
    and v2: "vw_GetVersion (sw_vw sw2) = vw_GetVersion (sw_vw sw1)"
    and p2: "sw_fp sw2 = sw_fp sw1"
    by blast
  from assms n w f obtain u sw3 where s: "SaveHeader E sw2 smsz sz now = (Inr u, sw3)"
    by (auto simp add: write_snapshot_def split: sum.splits prod.splits)
  from SaveHeader_Inr [OF s] obtain sh data where
    r: "SaveHeader_record E sw2 smsz sz now = Inr (sh, data)"
    and fit: "int (length data) \<le> int (SnapshotHeaderSize E) - 8"
    and c3: "content (sw_file sw3) = PutUint64 (word_of_nat (length data)) @ data
                @ drop (8 + length data) (content (sw_file sw2))"
    and p3: "sw_fp sw3 = sw_fp sw2"
    by blast
  have dir': "dir' = dir(path \<mapsto> content (sw_file sw3))"
    using assms n w f s
    by (simp add: write_snapshot_def SnapshotWriter_Close_def p3 p2 p1 n0)
  have le: "8 + length data \<le> SnapshotHeaderSize E"
    using fit by linarith
  have d: "drop (8 + length data) (content (sw_file sw2))
             = replicate (SnapshotHeaderSize E - (8 + length data)) 0 @ concat ps @ tr"
    using le by (simp add: c2 c1 n0)
  have ver: "version = v1SnapshotVersion \<and> tr = []
      \<or> version = v2SnapshotVersion \<and> tr = V2Trailer E (hash_Write newCRC32Hash (concat ps))"
  proof -
    have gv: "vw_GetVersion (sw_vw sw1) = version" by (simp add: v1 n0(4))
    have hh: "vw_hash (sw_vw sw1) = hash_Write newCRC32Hash (concat ps)"
      by (simp add: h1 n0(3))
    from n0(6) show ?thesis
    proof
      assume "version = v1SnapshotVersion"
      with t1 gv show ?thesis by simp
    next
      assume "version = v2SnapshotVersion"
      with t2 gv hh show ?thesis by simp
    qed
  qed
  note rec = SaveHeader_record_Inr [OF r]
  have pc: "PayloadChecksum sh = hash_Sum (hash_Write newCRC32Hash (concat ps))"
    by (simp add: rec vw_GetPayloadSum_hash h2 h1 n0)
  have vs: "Version sh = version"
    by (simp add: rec v2 v1 n0)
  have dir'': "dir' = dir(path \<mapsto> PutUint64 (word_of_nat (length data)) @ data
                          @ replicate (SnapshotHeaderSize E - (8 + length data)) 0
                          @ concat ps @ tr)"
    by (simp add: dir' c3 d)
  from dir'' fit rec(2) pc vs rec(6,7,8) ValidateHeader_SaveHeader_record(1) [OF r] ver
  show ?thesis by blast
qed

text \<open>Reading a file of that form.\<close>

lemma read_snapshot_framed:
  assumes H: "SnapshotHeaderSize E < 2 ^ 64"
    and n: "0 < n"
    and c: "dir path = Some (PutUint64 (word_of_nat (length data)) @ data @ pad @ P @ tr)"
    and l: "8 + length data + length pad = SnapshotHeaderSize E"
    and u: "Unmarshal E data = Inr sh"
    and v: "Version sh = v1SnapshotVersion \<and> tr = []
            \<or> Version sh = v2SnapshotVersion \<and> length tr = 16"
  shows "\<exists>sr vr. read_snapshot E dir path n = Some (Inr (sh, P, sr))
           \<and> sr_r sr = Some vr \<and> vr_hash vr = hash_Write newCRC32Hash P"
proof -
  define c where "c = PutUint64 (word_of_nat (length data)) @ data @ pad @ P @ tr"
  define sr0 where "sr0 = \<lparr>sr_r = None, sr_file = \<lparr>content = c, offset = 0\<rparr>\<rparr>"
  have o: "NewSnapshotReader dir path = Inr sr0"
    using assms(3) by (simp add: NewSnapshotReader_def sr0_def c_def)
  have L: "unat (Uint64 (take 8 c)) = length data"
    using H l by (simp add: c_def length_PutUint64 unat_Uint64_PutUint64)
  have d: "take (length data) (drop 8 c) = data"
    by (simp add: c_def length_PutUint64)
  have lc: "length c = SnapshotHeaderSize E + length P + length tr"
    using l by (simp add: c_def length_PutUint64)
  have dH: "drop (SnapshotHeaderSize E) c = P @ tr"
    using l by (simp add: c_def length_PutUint64)
  define rd where "rd = (if Version sh = v2SnapshotVersion
      then LimitedReader FileReader (int (length c) - int (SnapshotHeaderSize E) - 16)
      else FileReader)"
  define vr0 where "vr0 = (if Version sh = v2SnapshotVersion
      then V2Reader rd newCRC32Hash else V1Reader rd newCRC32Hash)"
  have gv: "getVersionReader rd (Version sh) = Inr vr0"
    using v by (auto simp add: getVersionReader_def vr0_def v1SnapshotVersion_def
        v2SnapshotVersion_def)
  define sr1 where "sr1 = sr0\<lparr>sr_r := Some vr0,
      sr_file := (sr_file sr0)\<lparr>offset := SnapshotHeaderSize E\<rparr>\<rparr>"
  have g: "GetHeader E sr0 = (Inr sh, sr1)"
  proof -
    have a1: "offset (sr_file sr0) = 0" by (simp add: sr0_def)
    have a2: "8 + unat (Uint64 (take 8 (content (sr_file sr0)))) \<le> length (content (sr_file sr0))"
      using l by (simp add: sr0_def L lc)
    have a3: "int (unat (Uint64 (take 8 (content (sr_file sr0))))) \<le> int (SnapshotHeaderSize E) - 8"
      using l by (simp add: sr0_def L)
    have a4: "Unmarshal E (take (unat (Uint64 (take 8 (content (sr_file sr0)))))
                        (drop 8 (content (sr_file sr0)))) = Inr sh"
      by (simp add: sr0_def L d u)
    have a5: "content (sr_file sr0) = c" by (simp add: sr0_def)
    show ?thesis
      unfolding GetHeader_eq [OF a1 a2 a3] a4 sum.case
      unfolding a5 rd_def [symmetric] gv sum.case sr1_def
      by (rule refl)
  qed
  have s1: "sr_r sr1 = Some vr0" by (simp add: sr1_def)
  have rem: "sr_remaining sr1 = P"
  proof (cases "Version sh = v2SnapshotVersion")
    case True
    with v have "length tr = 16" by (auto simp add: v1SnapshotVersion_def v2SnapshotVersion_def)
    with True show ?thesis
      by (simp add: sr_remaining_def sr1_def vr0_def rd_def sr0_def dH lc)
  next
    case False
    with v have "tr = []" by auto
    with False show ?thesis
      by (simp add: sr_remaining_def sr1_def vr0_def rd_def sr0_def dH)
  qed
  have h0: "vr_hash vr0 = newCRC32Hash" by (simp add: vr0_def)
  from ReadAll_remaining [OF n s1, of "[]"] obtain sr' vr' where
    "ReadAll n sr1 [] = Some (Inr P, sr')" "sr_r sr' = Some vr'"
    "vr_hash vr' = hash_Write newCRC32Hash P"
    by (auto simp add: rem h0)
  then show ?thesis
    by (simp add: read_snapshot_def o g)
qed

lemma fst_GetHeader_prefix:
  assumes "offset (sr_file sr) = 0"
    and "8 + unat (Uint64 (take 8 (content (sr_file sr)))) \<le> length (content (sr_file sr))"
    and "int (unat (Uint64 (take 8 (content (sr_file sr))))) \<le> int (SnapshotHeaderSize E) - 8"
  shows "fst (GetHeader E sr) =
     (case Unmarshal E (take (unat (Uint64 (take 8 (content (sr_file sr)))))
                          (drop 8 (content (sr_file sr)))) of
        Inl e \<Rightarrow> Inl (Panic e)
      | Inr hdr \<Rightarrow>
          if Version hdr = v1SnapshotVersion \<or> Version hdr = v2SnapshotVersion then Inr hdr
          else Inl (Panic ''unsupported v''))"
  unfolding GetHeader_eq [OF assms]
  by (simp add: getVersionReader_def split: sum.splits)

lemma sr_file_GetHeader:
  assumes "offset (sr_file sr) = 0"
    and "8 + unat (Uint64 (take 8 (content (sr_file sr)))) \<le> length (content (sr_file sr))"
    and "int (unat (Uint64 (take 8 (content (sr_file sr))))) \<le> int (SnapshotHeaderSize E) - 8"
    and "Unmarshal E (take (unat (Uint64 (take 8 (content (sr_file sr)))))
                          (drop 8 (content (sr_file sr)))) = Inr hdr"
  shows "sr_file (snd (GetHeader E sr)) = (sr_file sr)\<lparr>offset := SnapshotHeaderSize E\<rparr>"
  unfolding GetHeader_eq [OF assms(1,2,3)] assms(4)
  by (simp add: getVersionReader_def split: sum.splits)

lemma GetHeader_Inr_state:
  assumes "GetHeader E sr = (Inr hdr, sr')" and "offset (sr_file sr) = 0"
  shows "sr_file sr' = (sr_file sr)\<lparr>offset := SnapshotHeaderSize E\<rparr>"
    and "Version hdr = v2SnapshotVersion \<Longrightarrow>
           sr_r sr' = Some (V2Reader (LimitedReader FileReader
                       (file_Size (sr_file sr) - int (SnapshotHeaderSize E) - 16)) newCRC32Hash)"
    and "Version hdr \<noteq> v2SnapshotVersion \<Longrightarrow>
           Version hdr = v1SnapshotVersion \<and> sr_r sr' = Some (V1Reader FileReader newCRC32Hash)"
proof -
  note c = GetHeader_Inr [OF assms]
  from assms(1) have e: "(Inr hdr, sr') =
     (case getVersionReader
             (if Version hdr = v2SnapshotVersion
              then LimitedReader FileReader
                     (int (length (content (sr_file sr))) - int (SnapshotHeaderSize E) - 16)
              else FileReader) (Version hdr) of
        Inl e \<Rightarrow> (Inl e, sr\<lparr>sr_file := (sr_file sr)\<lparr>offset := SnapshotHeaderSize E\<rparr>\<rparr>)
      | Inr vr \<Rightarrow> (Inr hdr, sr\<lparr>sr_r := Some vr,
                                sr_file := (sr_file sr)\<lparr>offset := SnapshotHeaderSize E\<rparr>\<rparr>))"
    unfolding GetHeader_eq [OF assms(2) c(1,2)] c(3) by simp
  from e show "sr_file sr' = (sr_file sr)\<lparr>offset := SnapshotHeaderSize E\<rparr>"
    by (auto split: sum.splits)
  from e show "sr_r sr' = Some (V2Reader (LimitedReader FileReader
                       (file_Size (sr_file sr) - int (SnapshotHeaderSize E) - 16)) newCRC32Hash)"
    if "Version hdr = v2SnapshotVersion"
    using that
    by (auto simp add: getVersionReader_def file_Size_def v1SnapshotVersion_def
        v2SnapshotVersion_def split: sum.splits)
  from e show "Version hdr = v1SnapshotVersion \<and> sr_r sr' = Some (V1Reader FileReader newCRC32Hash)"
    if "Version hdr \<noteq> v2SnapshotVersion"
    using that
    by (auto simp add: getVersionReader_def split: sum.splits if_splits)
qed

subsection \<open>The examples\<close>

lemma example_env_size: "SnapshotHeaderSize example_env = 1024"
  by (simp add: example_env_def)

lemma example_env_ok:
  "SnapshotHeaderSize example_env < 2 ^ 64"
  "\<forall>h d. Marshal example_env h = Inr d \<longrightarrow> Unmarshal example_env d = Inr h"
  "\<forall>h. length (V2Trailer example_env h) = 16"
  by (simp_all add: example_env_def ref_Unmarshal_Marshal length_hash_Sum)

lemma example_write_snapshot:
  assumes "version = v1SnapshotVersion \<or> version = v2SnapshotVersion"
  shows "\<exists>dir'. write_snapshot example_env dir path version ps smsz sz now = Inr dir'"
proof -
  have "\<exists>w. getVersionWriter version = Inr w"
    using assms by (auto simp add: getVersionWriter_def)
  then obtain sw0 where n: "fst (NewSnapshotWriter example_env path version) = Inr sw0"
    by (auto simp add: NewSnapshotWriter_def Let_def)
  have e0: "offset (sw_file sw0) = length (content (sw_file sw0))"
    by (simp add: NewSnapshotWriter_Inr [OF n])
  from Write_all_at_end [OF e0, of ps] obtain sw1 where
    w: "Write_all sw0 ps = (None, sw1)"
    and e1: "offset (sw_file sw1) = length (content (sw_file sw1))"
    by blast
  from SnapshotWriter_Flush_at_end [OF e1, of example_env] obtain sw2 where
    f: "SnapshotWriter_Flush example_env sw1 = (None, sw2)"
    by blast
  from example_SaveHeader_record [of 1024 sw2 smsz sz now] obtain sh data where
    r: "SaveHeader_record example_env sw2 smsz sz now = Inr (sh, data)"
    and l: "length data = 50"
    by (auto simp add: example_env_def)
  obtain sw3 where s: "SaveHeader example_env sw2 smsz sz now = (Inr (), sw3)"
    by (simp add: SaveHeader_def r l example_env_size Let_def)
  show ?thesis
    by (simp add: write_snapshot_def n w f s SnapshotWriter_Close_def)
qed

lemma example_record_eq:
  "\<exists>d. ref_Marshal (example_header v) = Inr d \<and> length d = 50
       \<and> example_record v = PutUint64 50 @ d"
  by (simp add: example_record_def ref_Marshal_def example_header_def length_hash_Sum
      length_PutUint64)

lemma length_example_record: "length (example_record v) = 58"
  using example_record_eq [of v] by (auto simp add: length_PutUint64)

lemma example_reader_file:
  "offset (sr_file (example_reader bs)) = 0"
  "content (sr_file (example_reader bs)) = bs"
  by (simp_all add: example_reader_def)

text \<open>What \<open>GetHeader\<close> needs to know about a file that starts with the example record.\<close>

lemma example_record_prefix:
  assumes "c = example_record v @ rest"
  shows "unat (Uint64 (take 8 c)) = 50"
    and "Unmarshal example_env (take 50 (drop 8 c)) = Inr (example_header v)"
    and "length c = 58 + length rest"
    and "take 58 c = example_record v"
proof -
  from example_record_eq [of v] obtain d where
    m: "ref_Marshal (example_header v) = Inr d" and l: "length d = 50"
    and e: "example_record v = PutUint64 50 @ d"
    by blast
  have c: "c = PutUint64 50 @ d @ rest"
    by (simp add: assms e)
  have t8: "take 8 c = PutUint64 50"
    by (simp add: c length_PutUint64)
  show "unat (Uint64 (take 8 c)) = 50"
    unfolding t8 Uint64_PutUint64 by simp
  have d: "take 50 (drop 8 c) = d"
    by (simp add: c length_PutUint64 l)
  show "Unmarshal example_env (take 50 (drop 8 c)) = Inr (example_header v)"
    unfolding d using ref_Unmarshal_Marshal [OF m] by (simp add: example_env_def)
  show "length c = 58 + length rest"
    by (simp add: c length_PutUint64 l)
  show "take 58 c = example_record v"
    by (simp add: c e length_PutUint64 l)
qed

lemma example_GetHeader_hyps:
  assumes "c = example_record v @ rest"
  shows "offset (sr_file (example_reader c)) = 0"
    and "8 + unat (Uint64 (take 8 (content (sr_file (example_reader c)))))
           \<le> length (content (sr_file (example_reader c)))"
    and "int (unat (Uint64 (take 8 (content (sr_file (example_reader c))))))
           \<le> int (SnapshotHeaderSize example_env) - 8"
    and "Unmarshal example_env
           (take (unat (Uint64 (take 8 (content (sr_file (example_reader c))))))
              (drop 8 (content (sr_file (example_reader c))))) = Inr (example_header v)"
proof -
  note p = example_record_prefix [OF assms]
  show "offset (sr_file (example_reader c)) = 0"
    by (rule example_reader_file(1))
  show "8 + unat (Uint64 (take 8 (content (sr_file (example_reader c)))))
           \<le> length (content (sr_file (example_reader c)))"
    unfolding example_reader_file(2) p(1) p(3) by simp
  show "int (unat (Uint64 (take 8 (content (sr_file (example_reader c))))))
           \<le> int (SnapshotHeaderSize example_env) - 8"
    unfolding example_reader_file(2) p(1) example_env_size by simp
  show "Unmarshal example_env
           (take (unat (Uint64 (take 8 (content (sr_file (example_reader c))))))
              (drop 8 (content (sr_file (example_reader c))))) = Inr (example_header v)"
    unfolding example_reader_file(2) p(1) by (rule p(2))
qed

lemma example_GetHeader:
  assumes "v = v1SnapshotVersion \<or> v = v2SnapshotVersion"
    and "c = example_record v @ rest"
  shows "\<exists>sr'. GetHeader example_env (example_reader c) = (Inr (example_header v), sr')"
proof -
  note h = example_GetHeader_hyps [OF assms(2)]
  have ver: "Version (example_header v) = v" by (simp add: example_header_def)
  have "fst (GetHeader example_env (example_reader c)) = Inr (example_header v)"
    unfolding fst_GetHeader_prefix [OF h(1,2,3)] h(4) using assms(1) by (simp add: ver)
  then show ?thesis
    by (cases "GetHeader example_env (example_reader c)") auto
qed

subsection \<open>Saving and validating the header\<close>

text \<open>
  Claim C2. For the header record that \<open>SaveHeader\<close> builds, the stored header
  checksum is the CRC-32 of the record serialized with an empty \<open>HeaderChecksum\<close>, the
  checksum type it names is CRC32-IEEE, \<open>ValidateHeader\<close> accepts it, and with any other
  stored checksum \<open>ValidateHeader\<close> panics.
\<close>

theorem SaveHeader_checksum_verifies:
  assumes "SaveHeader_record E sw smsz sz now = Inr (sh, data)"
  shows "(\<exists>d0. Marshal E (sh\<lparr>HeaderChecksum := []\<rparr>) = Inr d0
            \<and> HeaderChecksum sh = hash_Sum (hash_Write newCRC32Hash d0))
         \<and> ChecksumType sh = CRC32IEEE
         \<and> ValidateHeader E sh = Inr ()
         \<and> (\<forall>c. c \<noteq> HeaderChecksum sh \<longrightarrow>
               ValidateHeader E (sh\<lparr>HeaderChecksum := c\<rparr>) = Inl (Panic ''corrupted snapshot header''))"
  using SaveHeader_record_Inr(1,3) [OF assms] ValidateHeader_SaveHeader_record [OF assms]
  by blast

theorem SaveHeader_checksum_verifies_witness:
  "ValidateHeader example_env
     (fst (projr (SaveHeader_record example_env example_writer 128 3 0))) = Inr ()
   \<and> ValidateHeader example_env
     ((fst (projr (SaveHeader_record example_env example_writer 128 3 0)))\<lparr>HeaderChecksum := []\<rparr>)
       = Inl (Panic ''corrupted snapshot header'')"
proof -
  obtain sh data where
    r: "SaveHeader_record example_env example_writer 128 3 0 = Inr (sh, data)"
    by (simp add: SaveHeader_record_def example_env_def ref_Marshal_def length_hash_Sum
        getDefaultChecksum_eq Let_def example_writer_def)
  from SaveHeader_checksum_verifies [OF r] have
    hc: "\<exists>d0. HeaderChecksum sh = hash_Sum (hash_Write newCRC32Hash d0)"
    and ok: "ValidateHeader example_env sh = Inr ()"
    and bad: "\<forall>c. c \<noteq> HeaderChecksum sh \<longrightarrow>
        ValidateHeader example_env (sh\<lparr>HeaderChecksum := c\<rparr>) = Inl (Panic ''corrupted snapshot header'')"
    by blast+
  from hc have "length (HeaderChecksum sh) = 4"
    by (auto simp add: length_hash_Sum)
  then have "[] \<noteq> HeaderChecksum sh" by auto
  with bad have "ValidateHeader example_env (sh\<lparr>HeaderChecksum := []\<rparr>)
      = Inl (Panic ''corrupted snapshot header'')"
    by blast
  with ok show ?thesis by (simp add: r)
qed

text \<open>
  Claim C3. When the final serialization of the header record is longer than
  \<open>SnapshotHeaderSize - 8\<close>, \<open>SaveHeader\<close> panics and the writer, its file included, is
  as before the call: nothing was written. Otherwise the call succeeds and the length
  prefix and the whole record are in the file: the record is never cut.
\<close>

theorem SaveHeader_oversized_panics:
  assumes "SaveHeader_record E sw smsz sz now = Inr (sh, data)"
  shows "(int (length data) > int (SnapshotHeaderSize E) - 8 \<longrightarrow>
            SaveHeader E sw smsz sz now = (Inl (Panic ''snapshot header is too large''), sw))
         \<and> (int (length data) \<le> int (SnapshotHeaderSize E) - 8 \<longrightarrow>
              (\<exists>sw'. SaveHeader E sw smsz sz now = (Inr (), sw')
                 \<and> take (8 + length data) (content (sw_file sw'))
                     = PutUint64 (word_of_nat (length data)) @ data))"
proof (intro conjI impI)
  assume "int (length data) > int (SnapshotHeaderSize E) - 8"
  with assms show "SaveHeader E sw smsz sz now = (Inl (Panic ''snapshot header is too large''), sw)"
    by (simp add: SaveHeader_def)
next
  assume fit: "int (length data) \<le> int (SnapshotHeaderSize E) - 8"
  obtain sw' where s: "SaveHeader E sw smsz sz now = (Inr (), sw')"
    using assms fit by (simp add: SaveHeader_def Let_def)
  from SaveHeader_Inr [OF s] assms have
    "content (sw_file sw') = PutUint64 (word_of_nat (length data)) @ data
        @ drop (8 + length data) (content (sw_file sw))"
    by auto
  then have "take (8 + length data) (content (sw_file sw'))
      = PutUint64 (word_of_nat (length data)) @ data"
    by (simp add: length_PutUint64)
  with s show "\<exists>sw'. SaveHeader E sw smsz sz now = (Inr (), sw')
                 \<and> take (8 + length data) (content (sw_file sw'))
                     = PutUint64 (word_of_nat (length data)) @ data"
    by blast
qed

theorem SaveHeader_oversized_panics_witness:
  "SaveHeader tiny_env example_writer 128 3 0
     = (Inl (Panic ''snapshot header is too large''), example_writer)
   \<and> (\<exists>sw'. SaveHeader example_env example_writer 128 3 0 = (Inr (), sw')
         \<and> length (content (sw_file sw')) = 1024
         \<and> take 8 (content (sw_file sw')) = [50, 0, 0, 0, 0, 0, 0, 0])"
proof -
  obtain sh data where
    r: "SaveHeader_record tiny_env example_writer 128 3 0 = Inr (sh, data)"
    and l: "length data = 50"
    using example_SaveHeader_record [of 32 example_writer 128 3 0]
    by (auto simp add: tiny_env_def)
  have big: "int (length data) > int (SnapshotHeaderSize tiny_env) - 8"
    by (simp add: l tiny_env_def example_env_def)
  obtain sh' data' where
    r': "SaveHeader_record example_env example_writer 128 3 0 = Inr (sh', data')"
    and l': "length data' = 50"
    using example_SaveHeader_record [of 1024 example_writer 128 3 0]
    by (auto simp add: example_env_def)
  have fit: "int (length data') \<le> int (SnapshotHeaderSize example_env) - 8"
    by (simp add: l' example_env_def)
  from SaveHeader_oversized_panics [OF r] big
  have 1: "SaveHeader tiny_env example_writer 128 3 0
     = (Inl (Panic ''snapshot header is too large''), example_writer)"
    by blast
  from SaveHeader_oversized_panics [OF r'] fit obtain sw' where
    s: "SaveHeader example_env example_writer 128 3 0 = (Inr (), sw')"
    and t: "take (8 + length data') (content (sw_file sw'))
              = PutUint64 (word_of_nat (length data')) @ data'"
    by blast
  from t have "take 8 (take (8 + length data') (content (sw_file sw')))
      = take 8 (PutUint64 (word_of_nat (length data')) @ data')"
    by simp
  then have t8: "take 8 (content (sw_file sw')) = [50, 0, 0, 0, 0, 0, 0, 0]"
    by (simp add: l' PutUint64_def)
  from SaveHeader_Inr [OF s] r' l' have
    "length (content (sw_file sw')) = 1024"
    by (auto simp add: length_PutUint64 example_writer_def)
  with 1 s t8 show ?thesis by blast
qed

subsection \<open>Writing a snapshot and reading it back\<close>

text \<open>
  Claim C1. In an environment whose serializer round-trips, whose header-region size is
  a \<^verbatim>\<open>uint64\<close> and whose version-2 trailer has 16 bytes: when the pieces of a payload
  are written through a writer of version 1 or 2 (\<open>Write\<close> calls, \<open>Flush\<close>,
  \<open>SaveHeader\<close>, \<open>Close\<close>) and the calls succeed, a reader opened on the same path gets a
  header from \<open>GetHeader\<close>, reads exactly the payload up to the end of the stream (with
  any non-empty buffer), and \<open>ValidatePayload\<close> and \<open>ValidateHeader\<close> both succeed on
  that header.
\<close>

theorem write_read_roundtrip:
  assumes "SnapshotHeaderSize E < 2 ^ 64"
    and "\<forall>h d. Marshal E h = Inr d \<longrightarrow> Unmarshal E d = Inr h"
    and "\<forall>h. length (V2Trailer E h) = 16"
    and "0 < n"
    and "write_snapshot E dir path version ps smsz sz now = Inr dir'"
  shows "(version = v1SnapshotVersion \<or> version = v2SnapshotVersion)
         \<and> (\<exists>hdr sr. read_snapshot E dir' path n = Some (Inr (hdr, concat ps, sr))
               \<and> ValidatePayload sr hdr = Inr ()
               \<and> ValidateHeader E hdr = Inr ()
               \<and> Version hdr = version \<and> SessionSize hdr = smsz \<and> DataStoreSize hdr = sz)"
proof -
  from write_snapshot_Inr [OF assms(5)] obtain sh data tr where
    dir': "dir' = dir(path \<mapsto> PutUint64 (word_of_nat (length data)) @ data
                          @ replicate (SnapshotHeaderSize E - (8 + length data)) 0
                          @ concat ps @ tr)"
    and fit: "int (length data) \<le> int (SnapshotHeaderSize E) - 8"
    and m: "Marshal E sh = Inr data"
    and pc: "PayloadChecksum sh = hash_Sum (hash_Write newCRC32Hash (concat ps))"
    and vs: "Version sh = version"
    and fs: "SessionSize sh = smsz" "DataStoreSize sh = sz"
    and vh: "ValidateHeader E sh = Inr ()"
    and ver: "version = v1SnapshotVersion \<and> tr = []
               \<or> version = v2SnapshotVersion
                  \<and> tr = V2Trailer E (hash_Write newCRC32Hash (concat ps))"
    by blast
  have c: "dir' path = Some (PutUint64 (word_of_nat (length data)) @ data
                          @ replicate (SnapshotHeaderSize E - (8 + length data)) 0
                          @ concat ps @ tr)"
    by (simp add: dir')
  have l: "8 + length data + length (replicate (SnapshotHeaderSize E - (8 + length data)) (0 :: byte))
             = SnapshotHeaderSize E"
    using fit by simp
  have u: "Unmarshal E data = Inr sh"
    using assms(2) m by blast
  have v: "Version sh = v1SnapshotVersion \<and> tr = []
            \<or> Version sh = v2SnapshotVersion \<and> length tr = 16"
    using ver assms(3) by (auto simp add: vs)
  from read_snapshot_framed [where dir = dir' and path = path, OF assms(1) assms(4) c l u v]
  obtain sr vr where
    rd: "read_snapshot E dir' path n = Some (Inr (sh, concat ps, sr))"
    and vr: "sr_r sr = Some vr" "vr_hash vr = hash_Write newCRC32Hash (concat ps)"
    by blast
  have vp: "ValidatePayload sr sh = Inr ()"
    by (simp add: ValidatePayload_def vr vr_Sum_hash pc)
  from rd vp vh vs fs ver show ?thesis by blast
qed

theorem write_read_roundtrip_witness:
  "\<exists>dir' hdr sr.
     write_snapshot example_env Map.empty ''snap'' v2SnapshotVersion [[1, 2], [3]] 128 3 0 = Inr dir'
     \<and> read_snapshot example_env dir' ''snap'' 2 = Some (Inr (hdr, [1, 2, 3], sr))
     \<and> ValidatePayload sr hdr = Inr ()
     \<and> ValidateHeader example_env hdr = Inr ()"
proof -
  obtain dir' where
    w: "write_snapshot example_env Map.empty ''snap'' v2SnapshotVersion [[1, 2], [3]] 128 3 0
          = Inr dir'"
    using example_write_snapshot [of v2SnapshotVersion] by blast
  have n: "0 < (2 :: nat)" by simp
  from write_read_roundtrip [OF example_env_ok n w] obtain hdr sr where
    "read_snapshot example_env dir' ''snap'' 2 = Some (Inr (hdr, concat [[1, 2], [3]], sr))"
    "ValidatePayload sr hdr = Inr ()" "ValidateHeader example_env hdr = Inr ()"
    by blast
  with w show ?thesis by auto
qed

subsection \<open>The header region on the read path\<close>

text \<open>
  Claim C4. \<open>GetHeader\<close> on a freshly opened file with at least eight bytes takes the
  first eight bytes as the little-endian length \<open>L\<close> and panics when \<open>L\<close> exceeds
  \<open>SnapshotHeaderSize - 8\<close>. When \<open>L\<close> is accepted and the file holds the \<open>L\<close> bytes, it
  deserializes exactly the bytes at offsets \<open>8 .. 8 + L\<close> and leaves the file at offset
  \<open>SnapshotHeaderSize\<close>; a header it returns is the deserialization of those bytes. The
  bytes after offset \<open>8 + L\<close> do not influence the outcome: two files that agree on the
  first \<open>8 + L\<close> bytes give the same header, the same error or the same panic.
\<close>

theorem GetHeader_length_prefix:
  assumes "offset (sr_file sr) = 0" and "8 \<le> length (content (sr_file sr))"
    and "c = content (sr_file sr)" and "L = unat (Uint64 (take 8 c))"
  shows "(int L > int (SnapshotHeaderSize E) - 8 \<longrightarrow>
            fst (GetHeader E sr) = Inl (Panic ''invalid snapshot header size''))
       \<and> (int L \<le> int (SnapshotHeaderSize E) - 8 \<and> 8 + L \<le> length c \<longrightarrow>
            (\<forall>hdr. Unmarshal E (take L (drop 8 c)) = Inr hdr \<longrightarrow>
               sr_file (snd (GetHeader E sr)) = (sr_file sr)\<lparr>offset := SnapshotHeaderSize E\<rparr>
               \<and> (Version hdr = v1SnapshotVersion \<or> Version hdr = v2SnapshotVersion \<longrightarrow>
                    fst (GetHeader E sr) = Inr hdr)))
       \<and> (\<forall>hdr sr'. GetHeader E sr = (Inr hdr, sr') \<longrightarrow>
            int L \<le> int (SnapshotHeaderSize E) - 8 \<and> 8 + L \<le> length c
            \<and> Unmarshal E (take L (drop 8 c)) = Inr hdr
            \<and> sr_file sr' = (sr_file sr)\<lparr>offset := SnapshotHeaderSize E\<rparr>)
       \<and> (\<forall>sr2. int L \<le> int (SnapshotHeaderSize E) - 8 \<and> 8 + L \<le> length c
               \<and> offset (sr_file sr2) = 0
               \<and> 8 + L \<le> length (content (sr_file sr2))
               \<and> take (8 + L) (content (sr_file sr2)) = take (8 + L) c \<longrightarrow>
               fst (GetHeader E sr2) = fst (GetHeader E sr))"
proof (intro conjI impI allI)
  assume "int L > int (SnapshotHeaderSize E) - 8"
  then show "fst (GetHeader E sr) = Inl (Panic ''invalid snapshot header size'')"
    using GetHeader_too_large [OF assms(1,2), of E] by (simp add: assms(3,4))
next
  fix hdr
  assume a: "int L \<le> int (SnapshotHeaderSize E) - 8 \<and> 8 + L \<le> length c"
    and u: "Unmarshal E (take L (drop 8 c)) = Inr hdr"
  have h: "8 + unat (Uint64 (take 8 (content (sr_file sr)))) \<le> length (content (sr_file sr))"
    "int (unat (Uint64 (take 8 (content (sr_file sr))))) \<le> int (SnapshotHeaderSize E) - 8"
    "Unmarshal E (take (unat (Uint64 (take 8 (content (sr_file sr)))))
                          (drop 8 (content (sr_file sr)))) = Inr hdr"
    using a u by (simp_all add: assms(3,4))
  show "sr_file (snd (GetHeader E sr)) = (sr_file sr)\<lparr>offset := SnapshotHeaderSize E\<rparr>"
    by (rule sr_file_GetHeader [OF assms(1) h])
  show "fst (GetHeader E sr) = Inr hdr"
    if "Version hdr = v1SnapshotVersion \<or> Version hdr = v2SnapshotVersion"
    using that by (simp add: fst_GetHeader_prefix [OF assms(1) h(1,2)] h(3))
next
  fix hdr sr'
  assume g: "GetHeader E sr = (Inr hdr, sr')"
  note i = GetHeader_Inr [OF g assms(1)]
  show "int L \<le> int (SnapshotHeaderSize E) - 8"
    using i(2) by (simp add: assms(3,4))
  show "8 + L \<le> length c"
    using i(1) by (simp add: assms(3,4))
  show "Unmarshal E (take L (drop 8 c)) = Inr hdr"
    using i(3) by (simp add: assms(3,4))
  show "sr_file sr' = (sr_file sr)\<lparr>offset := SnapshotHeaderSize E\<rparr>"
    by (rule GetHeader_Inr_state(1) [OF g assms(1)])
next
  fix sr2 :: SnapshotReader
  assume a: "int L \<le> int (SnapshotHeaderSize E) - 8 \<and> 8 + L \<le> length c
               \<and> offset (sr_file sr2) = 0
               \<and> 8 + L \<le> length (content (sr_file sr2))
               \<and> take (8 + L) (content (sr_file sr2)) = take (8 + L) c"
  define c2 where "c2 = content (sr_file sr2)"
  from a have t: "take (8 + L) c2 = take (8 + L) c" by (simp add: c2_def)
  have "take 8 (take (8 + L) c2) = take 8 (take (8 + L) c)"
    by (simp only: t)
  then have t8: "take 8 c2 = take 8 c" by (simp add: min_def)
  have "drop 8 (take (8 + L) c2) = drop 8 (take (8 + L) c)"
    by (simp only: t)
  then have tL: "take L (drop 8 c2) = take L (drop 8 c)"
    by (simp add: drop_take)
  have h1: "8 + unat (Uint64 (take 8 (content (sr_file sr)))) \<le> length (content (sr_file sr))"
    "int (unat (Uint64 (take 8 (content (sr_file sr))))) \<le> int (SnapshotHeaderSize E) - 8"
    using a by (simp_all add: assms(3,4))
  have h2: "offset (sr_file sr2) = 0"
    "8 + unat (Uint64 (take 8 (content (sr_file sr2)))) \<le> length (content (sr_file sr2))"
    "int (unat (Uint64 (take 8 (content (sr_file sr2))))) \<le> int (SnapshotHeaderSize E) - 8"
    using a t8 by (simp_all add: assms(4) c2_def)
  show "fst (GetHeader E sr2) = fst (GetHeader E sr)"
    unfolding fst_GetHeader_prefix [OF assms(1) h1] fst_GetHeader_prefix [OF h2]
    using t8 tL by (simp add: c2_def assms(3,4))
qed

theorem GetHeader_length_prefix_witness:
  "fst (GetHeader example_env (example_reader (PutUint64 2000)))
     = Inl (Panic ''invalid snapshot header size'')
   \<and> fst (GetHeader example_env (example_reader (example_file v1SnapshotVersion)))
       = Inr (example_header v1SnapshotVersion)
   \<and> offset (sr_file (snd (GetHeader example_env (example_reader (example_file v1SnapshotVersion)))))
       = 1024
   \<and> fst (GetHeader example_env (example_reader (example_record v1SnapshotVersion @ replicate 966 7)))
       = Inr (example_header v1SnapshotVersion)"
proof -
  let ?big = "example_reader (PutUint64 2000)"
  have t8: "take 8 (PutUint64 2000) = PutUint64 2000"
    by (simp add: length_PutUint64)
  have b1: "offset (sr_file ?big) = 0" by (rule example_reader_file(1))
  have b2: "8 \<le> length (content (sr_file ?big))"
    unfolding example_reader_file(2) length_PutUint64 by simp
  have b3: "PutUint64 2000 = content (sr_file ?big)"
    by (simp only: example_reader_file(2))
  have b4: "2000 = unat (Uint64 (take 8 (PutUint64 2000)))"
    unfolding t8 Uint64_PutUint64 by simp
  have big: "int 2000 > int (SnapshotHeaderSize example_env) - 8"
    unfolding example_env_size by simp
  from GetHeader_length_prefix [OF b1 b2 b3 b4, of example_env] big
  have 1: "fst (GetHeader example_env ?big) = Inl (Panic ''invalid snapshot header size'')"
    by blast
  let ?c = "example_file v1SnapshotVersion"
  let ?sr = "example_reader ?c"
  let ?c2 = "example_record v1SnapshotVersion @ replicate 966 7"
  let ?sr2 = "example_reader ?c2"
  have f: "?c = example_record v1SnapshotVersion @ (replicate 966 0 @ [1, 2, 3])"
    by (simp add: example_file_def v1SnapshotVersion_def v2SnapshotVersion_def)
  note p = example_record_prefix [OF f]
  note p2 = example_record_prefix [OF refl [of ?c2]]
  have e58: "(8 :: nat) + 50 = 58" by simp
  have a1: "offset (sr_file ?sr) = 0" by (rule example_reader_file(1))
  have a2: "8 \<le> length (content (sr_file ?sr))"
    unfolding example_reader_file(2) p(3) by simp
  have a3: "?c = content (sr_file ?sr)" by (simp only: example_reader_file(2))
  have a4: "50 = unat (Uint64 (take 8 ?c))" by (simp only: p(1))
  note t = GetHeader_length_prefix [OF a1 a2 a3 a4, of example_env]
  have fit: "int 50 \<le> int (SnapshotHeaderSize example_env) - 8 \<and> 8 + 50 \<le> length ?c"
    unfolding example_env_size p(3) by simp
  have u: "Unmarshal example_env (take 50 (drop 8 ?c)) = Inr (example_header v1SnapshotVersion)"
    by (rule p(2))
  have v: "Version (example_header v1SnapshotVersion) = v1SnapshotVersion"
    by (simp add: example_header_def)
  from t fit u v have 2: "fst (GetHeader example_env ?sr) = Inr (example_header v1SnapshotVersion)"
    and 3: "sr_file (snd (GetHeader example_env ?sr))
              = (sr_file ?sr)\<lparr>offset := SnapshotHeaderSize example_env\<rparr>"
    by blast+
  have s1: "offset (sr_file ?sr2) = 0" by (rule example_reader_file(1))
  have s2: "8 + 50 \<le> length (content (sr_file ?sr2))"
    unfolding example_reader_file(2) p2(3) by simp
  have s3: "take (8 + 50) (content (sr_file ?sr2)) = take (8 + 50) ?c"
    unfolding example_reader_file(2) e58 p(4) p2(4) by (rule refl)
  from t fit s1 s2 s3 have "fst (GetHeader example_env ?sr2) = fst (GetHeader example_env ?sr)"
    by blast
  with 2 have 4: "fst (GetHeader example_env ?sr2) = Inr (example_header v1SnapshotVersion)"
    by simp
  from 3 have 5: "offset (sr_file (snd (GetHeader example_env ?sr))) = 1024"
    by (simp add: example_env_size)
  from 1 2 5 4 show ?thesis by blast
qed

text \<open>
  Claim C5. When \<open>GetHeader\<close> returns a header of version 2, the strategy reads through
  a limit of \<open>fileSize - SnapshotHeaderSize - 16\<close> bytes on the file positioned at
  \<open>SnapshotHeaderSize\<close>: whatever the buffer sizes, the bytes returned by the following
  \<open>Read\<close> calls are a prefix of that many bytes of the file from offset
  \<open>SnapshotHeaderSize\<close>, so never more than that many and never a byte of the last 16;
  reading to the end returns exactly them. For any other header it returns (version 1),
  there is no limit: the calls return the bytes from offset \<open>SnapshotHeaderSize\<close> to
  the end of the file.
\<close>

theorem GetHeader_payload_limit:
  assumes "GetHeader E sr = (Inr hdr, sr')" and "offset (sr_file sr) = 0"
  shows "(Version hdr = v2SnapshotVersion \<longrightarrow>
            sr_r sr' = Some (V2Reader (LimitedReader FileReader
                        (file_Size (sr_file sr) - int (SnapshotHeaderSize E) - 16)) newCRC32Hash)
            \<and> (\<forall>ns. fst (Read_seq sr' ns)
                   = take (sum_list ns)
                       (take (nat (file_Size (sr_file sr) - int (SnapshotHeaderSize E) - 16))
                          (drop (SnapshotHeaderSize E) (content (sr_file sr)))))
            \<and> (\<forall>ns. int (length (fst (Read_seq sr' ns)))
                   \<le> max 0 (file_Size (sr_file sr) - int (SnapshotHeaderSize E) - 16))
            \<and> (\<forall>n. 0 < n \<longrightarrow> (\<exists>sr''. ReadAll n sr' [] =
                   Some (Inr (take (nat (file_Size (sr_file sr) - int (SnapshotHeaderSize E) - 16))
                                (drop (SnapshotHeaderSize E) (content (sr_file sr)))), sr''))))
       \<and> (Version hdr \<noteq> v2SnapshotVersion \<longrightarrow>
            Version hdr = v1SnapshotVersion
            \<and> sr_r sr' = Some (V1Reader FileReader newCRC32Hash)
            \<and> (\<forall>ns. fst (Read_seq sr' ns)
                   = take (sum_list ns) (drop (SnapshotHeaderSize E) (content (sr_file sr))))
            \<and> (\<forall>n. 0 < n \<longrightarrow> (\<exists>sr''. ReadAll n sr' [] =
                   Some (Inr (drop (SnapshotHeaderSize E) (content (sr_file sr))), sr''))))"
proof (intro conjI impI)
  note st = GetHeader_Inr_state [OF assms]
  {
    assume v: "Version hdr = v2SnapshotVersion"
    define N where "N = file_Size (sr_file sr) - int (SnapshotHeaderSize E) - 16"
    have r: "sr_r sr' = Some (V2Reader (LimitedReader FileReader N) newCRC32Hash)"
      using st(2) [OF v] by (simp add: N_def)
    have rem: "sr_remaining sr'
        = take (nat N) (drop (SnapshotHeaderSize E) (content (sr_file sr)))"
      by (simp add: sr_remaining_def r st(1))
    show "sr_r sr' = Some (V2Reader (LimitedReader FileReader
                        (file_Size (sr_file sr) - int (SnapshotHeaderSize E) - 16)) newCRC32Hash)"
      using r by (simp add: N_def)
    show "\<forall>ns. fst (Read_seq sr' ns)
                   = take (sum_list ns)
                       (take (nat (file_Size (sr_file sr) - int (SnapshotHeaderSize E) - 16))
                          (drop (SnapshotHeaderSize E) (content (sr_file sr))))"
      using Read_seq_remaining [OF r] by (simp add: rem N_def)
    show "\<forall>ns. int (length (fst (Read_seq sr' ns)))
                   \<le> max 0 (file_Size (sr_file sr) - int (SnapshotHeaderSize E) - 16)"
    proof
      fix ns
      have "length (fst (Read_seq sr' ns)) \<le> nat N"
        using Read_seq_remaining [OF r, of ns] by (simp add: rem)
      then have "int (length (fst (Read_seq sr' ns))) \<le> int (nat N)"
        by (simp only: of_nat_le_iff)
      also have "int (nat N) = max 0 N" by simp
      finally show "int (length (fst (Read_seq sr' ns)))
                   \<le> max 0 (file_Size (sr_file sr) - int (SnapshotHeaderSize E) - 16)"
        by (simp only: N_def)
    qed
    show "\<forall>n. 0 < n \<longrightarrow> (\<exists>sr''. ReadAll n sr' [] =
                   Some (Inr (take (nat (file_Size (sr_file sr) - int (SnapshotHeaderSize E) - 16))
                                (drop (SnapshotHeaderSize E) (content (sr_file sr)))), sr''))"
    proof (intro allI impI)
      fix n :: nat assume "0 < n"
      from ReadAll_remaining [OF this r, of "[]"] show "\<exists>sr''. ReadAll n sr' [] =
                   Some (Inr (take (nat (file_Size (sr_file sr) - int (SnapshotHeaderSize E) - 16))
                                (drop (SnapshotHeaderSize E) (content (sr_file sr)))), sr'')"
        by (auto simp add: rem N_def)
    qed
  }
  {
    assume v: "Version hdr \<noteq> v2SnapshotVersion"
    from st(3) [OF v] have r: "sr_r sr' = Some (V1Reader FileReader newCRC32Hash)"
      and v1: "Version hdr = v1SnapshotVersion" by simp_all
    have rem: "sr_remaining sr' = drop (SnapshotHeaderSize E) (content (sr_file sr))"
      by (simp add: sr_remaining_def r st(1))
    show "Version hdr = v1SnapshotVersion" by (rule v1)
    show "sr_r sr' = Some (V1Reader FileReader newCRC32Hash)" by (rule r)
    show "\<forall>ns. fst (Read_seq sr' ns)
                   = take (sum_list ns) (drop (SnapshotHeaderSize E) (content (sr_file sr)))"
      using Read_seq_remaining [OF r] by (simp add: rem)
    show "\<forall>n. 0 < n \<longrightarrow> (\<exists>sr''. ReadAll n sr' [] =
                   Some (Inr (drop (SnapshotHeaderSize E) (content (sr_file sr))), sr''))"
    proof (intro allI impI)
      fix n :: nat assume "0 < n"
      from ReadAll_remaining [OF this r, of "[]"] show "\<exists>sr''. ReadAll n sr' [] =
                   Some (Inr (drop (SnapshotHeaderSize E) (content (sr_file sr))), sr'')"
        by (auto simp add: rem)
    qed
  }
qed

theorem GetHeader_payload_limit_witness:
  "fst (Read_seq (snd (GetHeader example_env (example_reader (example_file v2SnapshotVersion))))
         [2, 0, 5, 9]) = [1, 2, 3]
   \<and> fst (Read_seq (snd (GetHeader example_env (example_reader (example_file v1SnapshotVersion))))
         [2, 0, 5, 9]) = [1, 2, 3]"
proof -
  have d: "v1SnapshotVersion \<noteq> v2SnapshotVersion"
    by (simp add: v1SnapshotVersion_def v2SnapshotVersion_def)
  have s: "sum_list [2, 0, 5, 9 :: nat] = 16" by simp
  let ?c2 = "example_file v2SnapshotVersion"
  have f2: "?c2 = example_record v2SnapshotVersion @ (replicate 966 0 @ [1, 2, 3] @ replicate 16 0)"
    by (simp add: example_file_def)
  note p2 = example_record_prefix [OF f2]
  from example_GetHeader [OF _ f2] obtain sr2 where
    g2: "GetHeader example_env (example_reader ?c2) = (Inr (example_header v2SnapshotVersion), sr2)"
    by blast
  have v2: "Version (example_header v2SnapshotVersion) = v2SnapshotVersion"
    by (simp add: example_header_def)
  from GetHeader_payload_limit [OF g2 example_reader_file(1)] v2
  have r2: "fst (Read_seq sr2 [2, 0, 5, 9]) = take (sum_list [2, 0, 5, 9])
          (take (nat (file_Size (sr_file (example_reader ?c2))
                        - int (SnapshotHeaderSize example_env) - 16))
             (drop (SnapshotHeaderSize example_env) (content (sr_file (example_reader ?c2)))))"
    by blast
  have sz2: "file_Size (sr_file (example_reader ?c2)) = 1043"
    unfolding file_Size_def example_reader_file(2) p2(3) by simp
  have dr2: "drop 1024 ?c2 = [1, 2, 3] @ replicate 16 0"
    unfolding f2 by (simp add: length_example_record)
  have 1: "fst (Read_seq sr2 [2, 0, 5, 9]) = [1, 2, 3]"
    unfolding r2 s sz2 example_env_size example_reader_file(2) dr2 by simp
  let ?c1 = "example_file v1SnapshotVersion"
  have f1: "?c1 = example_record v1SnapshotVersion @ (replicate 966 0 @ [1, 2, 3])"
    by (simp add: example_file_def d)
  from example_GetHeader [OF _ f1] obtain sr1 where
    g1: "GetHeader example_env (example_reader ?c1) = (Inr (example_header v1SnapshotVersion), sr1)"
    by blast
  have v1: "Version (example_header v1SnapshotVersion) \<noteq> v2SnapshotVersion"
    by (simp add: example_header_def d)
  from GetHeader_payload_limit [OF g1 example_reader_file(1)] v1
  have r1: "fst (Read_seq sr1 [2, 0, 5, 9]) = take (sum_list [2, 0, 5, 9])
             (drop (SnapshotHeaderSize example_env) (content (sr_file (example_reader ?c1))))"
    by blast
  have dr1: "drop 1024 ?c1 = [1, 2, 3]"
    unfolding f1 by (simp add: length_example_record)
  have 2: "fst (Read_seq sr1 [2, 0, 5, 9]) = [1, 2, 3]"
    unfolding r1 s example_env_size example_reader_file(2) dr1 by simp
  from 1 2 show ?thesis by (simp add: g1 g2)
qed

text \<open>
  Claim C10. For a file whose header record is intact and declares version 2, but whose
  size is below \<open>SnapshotHeaderSize + 16\<close>, \<open>GetHeader\<close> returns the header; every
  \<open>Read\<close> afterwards returns no byte and \<^verbatim>\<open>io.EOF\<close> and changes nothing; and
  \<open>ValidatePayload\<close> succeeds when the header's payload checksum is the checksum of the
  empty payload and panics with a checksum mismatch otherwise.
\<close>

theorem GetHeader_truncated_v2:
  assumes "offset (sr_file sr) = 0"
    and "c = content (sr_file sr)" and "L = unat (Uint64 (take 8 c))"
    and "8 + L \<le> length c" and "int L \<le> int (SnapshotHeaderSize E) - 8"
    and "Unmarshal E (take L (drop 8 c)) = Inr hdr"
    and "Version hdr = v2SnapshotVersion"
    and "length c < SnapshotHeaderSize E + 16"
  shows "\<exists>sr'. GetHeader E sr = (Inr hdr, sr')
           \<and> (\<forall>n. SnapshotReader_Read sr' n = (Inr ([], Some EOF), sr'))
           \<and> (\<forall>ns. Read_seq sr' ns = ([], sr'))
           \<and> (PayloadChecksum hdr = hash_Sum newCRC32Hash \<longrightarrow> ValidatePayload sr' hdr = Inr ())
           \<and> (PayloadChecksum hdr \<noteq> hash_Sum newCRC32Hash \<longrightarrow>
                 ValidatePayload sr' hdr = Inl (Panic ''corrupted snapshot payload''))"
proof -
  define N where "N = int (length c) - int (SnapshotHeaderSize E) - 16"
  have N: "N \<le> 0" using assms(8) by (simp add: N_def)
  define sr' where "sr' = sr\<lparr>sr_r := Some (V2Reader (LimitedReader FileReader N) newCRC32Hash),
      sr_file := (sr_file sr)\<lparr>offset := SnapshotHeaderSize E\<rparr>\<rparr>"
  have h: "8 + unat (Uint64 (take 8 (content (sr_file sr)))) \<le> length (content (sr_file sr))"
    "int (unat (Uint64 (take 8 (content (sr_file sr))))) \<le> int (SnapshotHeaderSize E) - 8"
    "Unmarshal E (take (unat (Uint64 (take 8 (content (sr_file sr)))))
                          (drop 8 (content (sr_file sr)))) = Inr hdr"
    using assms(4,5,6) by (simp_all add: assms(2,3))
  have g: "GetHeader E sr = (Inr hdr, sr')"
    unfolding GetHeader_eq [OF assms(1) h(1,2)] h(3)
    by (simp add: assms(7) getVersionReader_def v1SnapshotVersion_def v2SnapshotVersion_def
        sr'_def N_def assms(2))
  have rd: "SnapshotReader_Read sr' n = (Inr ([], Some EOF), sr')" for n
    using N by (simp add: SnapshotReader_Read_def sr'_def hash_Write_Nil)
  have rs: "Read_seq sr' ns = ([], sr')" for ns
    by (induction ns) (simp_all add: rd)
  have vp: "ValidatePayload sr' hdr =
      (if hash_Sum newCRC32Hash \<noteq> PayloadChecksum hdr
       then Inl (Panic ''corrupted snapshot payload'') else Inr ())"
    by (simp add: ValidatePayload_def sr'_def)
  from g rd rs vp show ?thesis by auto
qed

theorem GetHeader_truncated_v2_witness:
  "\<exists>sr'. GetHeader example_env (example_reader (example_record v2SnapshotVersion))
            = (Inr (example_header v2SnapshotVersion), sr')
      \<and> SnapshotReader_Read sr' 4096 = (Inr ([], Some EOF), sr')
      \<and> ValidatePayload sr' (example_header v2SnapshotVersion) = Inr ()"
proof -
  let ?c = "example_record v2SnapshotVersion"
  let ?sr = "example_reader ?c"
  have c: "?c = example_record v2SnapshotVersion @ []" by simp
  note p = example_record_prefix [OF c]
  have a1: "offset (sr_file ?sr) = 0" by (rule example_reader_file(1))
  have a2: "?c = content (sr_file ?sr)" by (simp only: example_reader_file(2))
  have a3: "50 = unat (Uint64 (take 8 ?c))" by (simp only: p(1))
  have a4: "8 + 50 \<le> length ?c" unfolding p(3) by simp
  have a5: "int 50 \<le> int (SnapshotHeaderSize example_env) - 8"
    unfolding example_env_size by simp
  have a6: "Unmarshal example_env (take 50 (drop 8 ?c)) = Inr (example_header v2SnapshotVersion)"
    by (rule p(2))
  have a7: "Version (example_header v2SnapshotVersion) = v2SnapshotVersion"
    by (simp add: example_header_def)
  have a8: "length ?c < SnapshotHeaderSize example_env + 16"
    unfolding p(3) example_env_size by simp
  from GetHeader_truncated_v2 [OF a1 a2 a3 a4 a5 a6 a7 a8] obtain sr' where
    g: "GetHeader example_env ?sr = (Inr (example_header v2SnapshotVersion), sr')"
    and r: "\<forall>n. SnapshotReader_Read sr' n = (Inr ([], Some EOF), sr')"
    and ok: "PayloadChecksum (example_header v2SnapshotVersion) = hash_Sum newCRC32Hash \<longrightarrow>
        ValidatePayload sr' (example_header v2SnapshotVersion) = Inr ()"
    by blast
  have p: "PayloadChecksum (example_header v2SnapshotVersion) = hash_Sum newCRC32Hash"
    by (simp add: example_header_def)
  from g r ok p show ?thesis by blast
qed

subsection \<open>Tag dispatch\<close>

text \<open>
  Claim C6. Selecting any checksum type other than CRC32-IEEE panics, the reserved
  HIGHWAY identifier included, so \<open>getChecksum\<close> returns a hash for CRC32-IEEE only; and
  a version tag other than 1 or 2 makes the writer, the reader and the validator
  dispatch panic: neither mapping has a default.
\<close>

theorem unsupported_tags_panic:
  "(t \<noteq> CRC32IEEE \<longrightarrow> is_panic (getChecksum t))
   \<and> getChecksum HIGHWAY = Inl (Panic ''highway hash not supported yet'')
   \<and> ((\<exists>h. getChecksum t = Inr h) \<longleftrightarrow> t = CRC32IEEE)
   \<and> (v \<noteq> v1SnapshotVersion \<and> v \<noteq> v2SnapshotVersion \<longrightarrow>
        getVersionWriter v = Inl (Panic ''unsupported v'')
        \<and> getVersionReader rd v = Inl (Panic ''unsupported v'')
        \<and> (Version header = v \<longrightarrow> getVersionValidator VE header = Inl (Panic ''unsupported v'')))"
  by (simp add: getChecksum_def HIGHWAY_def CRC32IEEE_def getVersionWriter_def
      getVersionReader_def getVersionValidator_def)

theorem unsupported_tags_panic_witness:
  "(7 :: ChecksumType) \<noteq> CRC32IEEE \<and> is_panic (getChecksum 7)
   \<and> (3 :: SnapshotVersion) \<noteq> v1SnapshotVersion \<and> (3 :: SnapshotVersion) \<noteq> v2SnapshotVersion
   \<and> getVersionWriter 3 = Inl (Panic ''unsupported v'')
   \<and> getVersionReader FileReader 3 = Inl (Panic ''unsupported v'')
   \<and> getVersionValidator counting_venv (fst (getHeaderFromFirstChunk counting_venv [3]))
        = Inl (Panic ''unsupported v'')"
  using unsupported_tags_panic [of 7 3 FileReader "fst (getHeaderFromFirstChunk counting_venv [3])" counting_venv]
  by (simp add: CRC32IEEE_def v1SnapshotVersion_def v2SnapshotVersion_def counting_venv_def)

subsection \<open>The chunk validator\<close>

text \<open>
  Claim C7. On a validator that has no strategy yet, \<open>AddChunk\<close> with a chunk id other
  than 0 returns false and leaves the validator as it was, without a strategy, so that
  \<open>Validate\<close> afterwards still returns false.
\<close>

theorem AddChunk_unbound_rejects:
  "chunkID \<noteq> 0 \<Longrightarrow> sv_v sv = None \<Longrightarrow>
     AddChunk VE sv data chunkID = (Inr False, sv)
     \<and> sv_v (snd (AddChunk VE sv data chunkID)) = None
     \<and> Validate VE (snd (AddChunk VE sv data chunkID)) = False"
  by (simp add: AddChunk_def Validate_def)

theorem AddChunk_unbound_rejects_witness:
  "(1 :: 64 word) \<noteq> 0 \<and> sv_v (NewSnapshotValidator :: nat SnapshotValidator) = None
   \<and> AddChunk counting_venv NewSnapshotValidator [1, 2] 1 = (Inr False, NewSnapshotValidator)
   \<and> Validate counting_venv (snd (AddChunk counting_venv NewSnapshotValidator [1, 2] 1)) = False"
proof -
  have a: "(1 :: 64 word) \<noteq> 0" by simp
  have b: "sv_v (NewSnapshotValidator :: nat SnapshotValidator) = None"
    by (simp add: NewSnapshotValidator_def)
  show ?thesis
    using a b AddChunk_unbound_rejects [OF a b, of counting_venv "[1, 2]"] by auto
qed

text \<open>
  Claim C8. On a validator that already has a strategy, \<open>AddChunk\<close> with chunk id 0
  returns false whatever the bytes of the chunk are, and the validator is unchanged.
\<close>

theorem AddChunk_bound_rejects_chunk0:
  "sv_v sv \<noteq> None \<Longrightarrow> AddChunk VE sv data 0 = (Inr False, sv)"
  by (simp add: AddChunk_def split: prod.split)

theorem AddChunk_bound_rejects_chunk0_witness:
  "sv_v (snd (AddChunk counting_venv NewSnapshotValidator [1, 2] 0)) \<noteq> None
   \<and> AddChunk counting_venv (snd (AddChunk counting_venv NewSnapshotValidator [1, 2] 0)) [1, 2] 0
       = (Inr False, snd (AddChunk counting_venv NewSnapshotValidator [1, 2] 0))"
proof -
  have b: "sv_v (snd (AddChunk counting_venv NewSnapshotValidator [1, 2] 0)) \<noteq> None"
    by (simp add: AddChunk_def counting_venv_def NewSnapshotValidator_def
        getVersionValidator_def v1SnapshotVersion_def)
  show ?thesis
    using b AddChunk_bound_rejects_chunk0 [OF b, of counting_venv "[1, 2]"] by simp
qed

text \<open>
  Claim C9. The three rejections that \<open>AddChunk\<close> decides by itself (chunk 0 whose
  header cannot be extracted, a later chunk without a strategy, chunk 0 with a strategy)
  return false and leave the validator exactly as it was. A bound strategy is never
  cleared or replaced: after any call it is the same strategy, untouched or advanced by
  its own \<open>AddChunk\<close>. A validator without a strategy gets one only from a chunk 0 whose
  header was extracted, and it is the strategy the header's version selects.
\<close>

theorem AddChunk_binding_stable:
  "(chunkID = 0 \<and> \<not> snd (getHeaderFromFirstChunk VE data) \<longrightarrow>
       AddChunk VE sv data chunkID = (Inr False, sv))
   \<and> (chunkID \<noteq> 0 \<and> sv_v sv = None \<longrightarrow> AddChunk VE sv data chunkID = (Inr False, sv))
   \<and> (chunkID = 0 \<and> sv_v sv \<noteq> None \<longrightarrow> AddChunk VE sv data chunkID = (Inr False, sv))
   \<and> (sv_v sv = Some s \<longrightarrow>
         sv_v (snd (AddChunk VE sv data chunkID)) = Some s
         \<or> sv_v (snd (AddChunk VE sv data chunkID)) = Some (snd (vv_AddChunk VE s data chunkID)))
   \<and> (sv_v sv = None \<and> sv_v (snd (AddChunk VE sv data chunkID)) \<noteq> None \<longrightarrow>
         chunkID = 0 \<and> snd (getHeaderFromFirstChunk VE data)
         \<and> (\<exists>s0. getVersionValidator VE (fst (getHeaderFromFirstChunk VE data)) = Inr s0
                \<and> sv_v (snd (AddChunk VE sv data chunkID)) = Some (snd (vv_AddChunk VE s0 data 0))))"
  by (auto simp add: AddChunk_def split: prod.splits sum.splits option.splits)

theorem AddChunk_binding_stable_witness:
  "AddChunk counting_venv NewSnapshotValidator [] 0 = (Inr False, NewSnapshotValidator)
   \<and> AddChunk counting_venv NewSnapshotValidator [1, 2] 1 = (Inr False, NewSnapshotValidator)
   \<and> AddChunk counting_venv \<lparr>sv_v = Some 5\<rparr> [1, 2] 0 = (Inr False, \<lparr>sv_v = Some 5\<rparr>)
   \<and> sv_v (snd (AddChunk counting_venv \<lparr>sv_v = Some 5\<rparr> [1, 2] 1)) = Some 6
   \<and> sv_v (snd (AddChunk counting_venv NewSnapshotValidator [1, 2] 0)) = Some 1"
proof -
  have n: "sv_v (snd (AddChunk counting_venv NewSnapshotValidator [1, 2] 0)) \<noteq> None"
    by (simp add: AddChunk_def counting_venv_def NewSnapshotValidator_def
        getVersionValidator_def v1SnapshotVersion_def)
  have g: "getVersionValidator counting_venv (fst (getHeaderFromFirstChunk counting_venv [1, 2]))
             = Inr 0"
    by (simp add: counting_venv_def getVersionValidator_def v1SnapshotVersion_def)
  have c: "vv_AddChunk counting_venv s [1, 2] k = (True, Suc s)" for s k
    by (simp add: counting_venv_def)
  have e: "\<not> snd (getHeaderFromFirstChunk counting_venv [])"
    by (simp add: counting_venv_def)
  have u: "sv_v (NewSnapshotValidator :: nat SnapshotValidator) = None"
    by (simp add: NewSnapshotValidator_def)
  have 1: "AddChunk counting_venv NewSnapshotValidator [] 0 = (Inr False, NewSnapshotValidator)"
    using AddChunk_binding_stable
      [where chunkID = 0 and VE = counting_venv and data = "[]" and sv = NewSnapshotValidator]
      e by simp
  have 2: "AddChunk counting_venv NewSnapshotValidator [1, 2] 1 = (Inr False, NewSnapshotValidator)"
    using AddChunk_binding_stable
      [where chunkID = 1 and VE = counting_venv and data = "[1, 2]" and sv = NewSnapshotValidator]
      u by simp
  have 3: "AddChunk counting_venv \<lparr>sv_v = Some 5\<rparr> [1, 2] 0 = (Inr False, \<lparr>sv_v = Some 5\<rparr>)"
    using AddChunk_binding_stable
      [where chunkID = 0 and VE = counting_venv and data = "[1, 2]" and sv = "\<lparr>sv_v = Some 5\<rparr>"]
    by simp
  have 4: "sv_v (snd (AddChunk counting_venv \<lparr>sv_v = Some 5\<rparr> [1, 2] 1)) = Some 6"
    using AddChunk_binding_stable
      [where chunkID = 1 and VE = counting_venv and data = "[1, 2]" and sv = "\<lparr>sv_v = Some 5\<rparr>"
        and s = 5]
    by (simp add: AddChunk_def c)
  have 5: "sv_v (snd (AddChunk counting_venv NewSnapshotValidator [1, 2] 0)) = Some 1"
    using AddChunk_binding_stable
      [where chunkID = 0 and VE = counting_venv and data = "[1, 2]" and sv = NewSnapshotValidator]
      n u g by (simp add: c)
  from 1 2 3 4 5 show ?thesis by blast
qed

end
